theory Spec2Isabelle
  imports Main
begin

section \<open>String primitives of the host language\<close>

text \<open>
  Strings are lists of characters. The engine protocol is ASCII, and the model covers
  the ASCII behaviour of the JavaScript string methods the manager calls:
  \<^verbatim>\<open>startsWith\<close>, \<^verbatim>\<open>includes\<close>, \<^verbatim>\<open>split\<close>, \<^verbatim>\<open>trim\<close>, the three regular expressions and
  \<^verbatim>\<open>parseInt\<close> on the digit strings they capture.
\<close>

abbreviation nl :: char where
  "nl \<equiv> CHR 0x0A"

definition startsWith :: "string \<Rightarrow> string \<Rightarrow> bool" where
  "startsWith line p = (take (length p) line = p)"

fun includesStr :: "string \<Rightarrow> string \<Rightarrow> bool" where
  "includesStr [] p = (p = [])"
| "includesStr (c # cs) p = (startsWith (c # cs) p \<or> includesStr cs p)"

text \<open>\<^verbatim>\<open>s.split(c)\<close> for a one-character separator: never empty, \<^verbatim>\<open>''.split(c)\<close> is \<^verbatim>\<open>['']\<close>.\<close>

fun splitOn :: "char \<Rightarrow> string \<Rightarrow> string list" where
  "splitOn c [] = [[]]"
| "splitOn c (x # xs) =
     (if x = c then [] # splitOn c xs
      else (case splitOn c xs of
              [] \<Rightarrow> [[x]]
            | w # ws \<Rightarrow> (x # w) # ws))"

definition isSpace :: "char \<Rightarrow> bool" where
  "isSpace c = (c = CHR 0x20 \<or> c = CHR 0x09 \<or> c = CHR 0x0A \<or> c = CHR 0x0B
                \<or> c = CHR 0x0C \<or> c = CHR 0x0D)"

definition trim :: "string \<Rightarrow> string" where
  "trim s = rev (dropWhile isSpace (rev (dropWhile isSpace s)))"

definition isDigit :: "char \<Rightarrow> bool" where
  "isDigit c = (48 \<le> (of_char c :: nat) \<and> (of_char c :: nat) \<le> 57)"

text \<open>
  \<^verbatim>\<open>parseInt\<close> on a non-empty run of decimal digits. JavaScript numbers are doubles, so
  the value is exact below \<open>2^53\<close>; the model keeps the exact integer throughout.
\<close>

definition parseDigits :: "string \<Rightarrow> nat" where
  "parseDigits ds = foldl (\<lambda>n c. 10 * n + ((of_char c :: nat) - 48)) 0 ds"

text \<open>
  The capture group at the head of a string: \<^verbatim>\<open>(-?\d+)\<close> when \<open>signed\<close>, \<^verbatim>\<open>(\d+)\<close>
  otherwise; the digits are taken greedily and the capture is read by \<^verbatim>\<open>parseInt\<close>.
\<close>

definition matchNumberAt :: "bool \<Rightarrow> string \<Rightarrow> int option" where
  "matchNumberAt signed s =
     (if signed \<and> s \<noteq> [] \<and> hd s = CHR ''-'' \<and> takeWhile isDigit (tl s) \<noteq> []
      then Some (- int (parseDigits (takeWhile isDigit (tl s))))
      else if takeWhile isDigit s \<noteq> [] then Some (int (parseDigits (takeWhile isDigit s)))
      else None)"

text \<open>
  \<^verbatim>\<open>line.match(/kw (-?\d+)/)\<close> followed by \<^verbatim>\<open>parseInt(m[1])\<close>: the leftmost position where
  the keyword (with its trailing space) is followed by a number. \<open>None\<close> is the
  \<^verbatim>\<open>null\<close> of a failed match.
\<close>

fun matchNumber :: "string \<Rightarrow> bool \<Rightarrow> string \<Rightarrow> int option" where
  "matchNumber kw signed [] = None"
| "matchNumber kw signed (c # cs) =
     (if startsWith (c # cs) kw then
        (case matchNumberAt signed (drop (length kw) (c # cs)) of
           Some v \<Rightarrow> Some v
         | None \<Rightarrow> matchNumber kw signed cs)
      else matchNumber kw signed cs)"

text \<open>Decimal rendering of an integer, as a template literal interpolates it.\<close>

definition digitChar :: "nat \<Rightarrow> char" where
  "digitChar n = char_of (48 + n)"

function showNat :: "nat \<Rightarrow> string" where
  "showNat n = (if n < 10 then [digitChar n] else showNat (n div 10) @ [digitChar (n mod 10)])"
  by pat_completeness auto
termination
  by (relation "measure id") auto

declare showNat.simps [simp del]

definition showInt :: "int \<Rightarrow> string" where
  "showInt i = (if i < 0 then CHR ''-'' # showNat (nat (- i)) else showNat (nat i))"

section \<open>Data model\<close>

text \<open>
  A numeric field of an Evaluation object: absent (\<^verbatim>\<open>undefined\<close>), \<^verbatim>\<open>null\<close> or a number.
\<close>

datatype jsnum = Undefined | Null | Num int

record evaluation =
  etype :: string
  evalue :: int
  depth :: jsnum
  nodes :: jsnum
  time :: jsnum

datatype error = EngineNotReady | Timeout

text \<open>
  The settlement of one promise. A best-move request resolves with the object
  \<^verbatim>\<open>{move, evaluation}\<close>: the move (\<open>None\<close> when \<^verbatim>\<open>parts[1]\<close> is \<^verbatim>\<open>undefined\<close>) and a
  reference to an Evaluation object (\<open>None\<close> for \<^verbatim>\<open>null\<close>). An evaluation request
  resolves with such a reference.
\<close>

datatype outcome =
  Pending
| ResolvedMove "string option" "nat option"
| ResolvedEval "nat option"
| Rejected error

text \<open>
  One call of \<^verbatim>\<open>getBestMove\<close> or \<^verbatim>\<open>evaluatePosition\<close>: its promise and the closure
  variable \<^verbatim>\<open>finalEvaluation\<close> (used by \<^verbatim>\<open>evaluatePosition\<close> only).
\<close>

record request =
  outcome :: outcome
  finalEvaluation :: "nat option"

text \<open>
  Listeners the manager registers on itself. Every \<^verbatim>\<open>bestmove\<close> listener is registered
  with \<^verbatim>\<open>once\<close>; the number is the request whose closure it is.
\<close>

datatype bm_listener = MoveHandler nat | EvalMoveHandler nat int

datatype ev_listener = EvaluationHandler nat int

record timer =
  delay :: int
  tpid :: nat
  armed :: bool

text \<open>
  What the subscribers of the application shell receive. An \<^verbatim>\<open>evaluation\<close> notification
  carries the reference of the emitted object and its contents at that moment.
\<close>

datatype notification =
  Ready
| BestmoveN "string option" "nat option"
| EvaluationN nat evaluation
| ErrorN string

datatype console_msg =
  LogStarting string
| LogStockfish string
| ErrStderr string
| LogClosed "int option"
| ErrProcess string
| ErrNotStarted
| LogSending string

text \<open>
  The fields of the class, followed by its environment: the store of Evaluation
  objects, what was written to the input of each spawned process, the notifications
  delivered, the console, the timers of the event loop, the requests made so far and
  the listeners registered by pending requests.
\<close>

record manager =
  stockfishProcess :: "nat option"
  isReady :: bool
  pendingCommands :: "string list"
  currentEvaluation :: "nat option"
  moveTimeout :: "nat option"
  heap :: "nat \<Rightarrow> evaluation"
  nextAddr :: nat
  stdin :: "(nat \<times> string) list"
  spawned :: nat
  emitted :: "notification list"
  console :: "console_msg list"
  timers :: "timer list"
  requests :: "request list"
  bestmoveListeners :: "bm_listener list"
  evaluationListeners :: "ev_listener list"

definition blankEvaluation :: evaluation where
  "blankEvaluation = \<lparr>etype = [], evalue = 0, depth = Undefined, nodes = Undefined,
                       time = Undefined\<rparr>"

definition constructor :: manager where
  "constructor = \<lparr>stockfishProcess = None, isReady = False, pendingCommands = [],
     currentEvaluation = None, moveTimeout = None, heap = (\<lambda>_. blankEvaluation),
     nextAddr = 0, stdin = [], spawned = 0, emitted = [], console = [], timers = [],
     requests = [], bestmoveListeners = [], evaluationListeners = []\<rparr>"

section \<open>Sending commands\<close>

definition sendCommand :: "manager \<Rightarrow> string \<Rightarrow> manager" where
  "sendCommand s command =
     (case stockfishProcess s of
        None \<Rightarrow> s\<lparr>console := console s @ [ErrNotStarted]\<rparr>
      | Some p \<Rightarrow>
          if \<not> isReady s \<and> command \<noteq> ''uci'' \<and> command \<noteq> ''isready''
          then s\<lparr>pendingCommands := pendingCommands s @ [command]\<rparr>
          else s\<lparr>console := console s @ [LogSending command],
                 stdin := stdin s @ [(p, command @ [nl])]\<rparr>)"

text \<open>
  The \<^verbatim>\<open>while\<close> loop of \<^verbatim>\<open>processPendingCommands\<close>. It need not terminate: a command
  shifted off the queue while the manager is not ready is pushed back by
  \<^verbatim>\<open>sendCommand\<close>. \<open>None\<close> is a loop that never returns.
\<close>

partial_function (option) processPendingCommands :: "manager \<Rightarrow> manager option" where
  "processPendingCommands s =
     (if pendingCommands s = [] then Some s
      else processPendingCommands
             (sendCommand (s\<lparr>pendingCommands := tl (pendingCommands s)\<rparr>)
                (hd (pendingCommands s))))"

declare processPendingCommands.simps [code]

section \<open>Promises, timers and listeners\<close>

text \<open>\<^verbatim>\<open>resolve\<close> and \<^verbatim>\<open>reject\<close>: only the first settlement of a promise counts.\<close>

definition settle :: "nat \<Rightarrow> outcome \<Rightarrow> manager \<Rightarrow> manager" where
  "settle pid oc s =
     (if pid < length (requests s) \<and> outcome (requests s ! pid) = Pending
      then s\<lparr>requests := (requests s)[pid := (requests s ! pid)\<lparr>outcome := oc\<rparr>]\<rparr>
      else s)"

definition clearTimeout :: "manager \<Rightarrow> nat \<Rightarrow> manager" where
  "clearTimeout s i = s\<lparr>timers := (timers s)[i := (timers s ! i)\<lparr>armed := False\<rparr>]\<rparr>"

text \<open>
  \<^verbatim>\<open>removeListener\<close> removes the most recently added instance of a listener.
\<close>

definition removeListener :: "'a \<Rightarrow> 'a list \<Rightarrow> 'a list" where
  "removeListener l ls = rev (remove1 l (rev ls))"

text \<open>
  JavaScript's \<^verbatim>\<open>x >= d\<close> for a field \<open>x\<close> and a number \<open>d\<close>: \<^verbatim>\<open>undefined\<close> becomes
  \<^verbatim>\<open>NaN\<close> and compares false, \<^verbatim>\<open>null\<close> becomes \<open>0\<close>.
\<close>

definition jsGe :: "jsnum \<Rightarrow> int \<Rightarrow> bool" where
  "jsGe x d = (case x of Undefined \<Rightarrow> False | Null \<Rightarrow> d \<le> 0 | Num n \<Rightarrow> d \<le> n)"

text \<open>The \<^verbatim>\<open>evaluationHandler\<close> closure of \<^verbatim>\<open>evaluatePosition\<close>, called with object \<open>a\<close>.\<close>

fun evaluationHandler :: "nat \<Rightarrow> manager \<Rightarrow> ev_listener \<Rightarrow> manager" where
  "evaluationHandler a s (EvaluationHandler pid d) =
     (if jsGe (depth (heap s a)) d
      then s\<lparr>requests := (requests s)[pid := (requests s ! pid)\<lparr>finalEvaluation := Some a\<rparr>]\<rparr>
      else s)"

text \<open>
  \<^verbatim>\<open>this.emit('evaluation', obj)\<close>: the shell's subscriber first, then the listeners of
  pending evaluation requests in registration order.
\<close>

definition emitEvaluation :: "manager \<Rightarrow> nat \<Rightarrow> manager" where
  "emitEvaluation s a =
     foldl (evaluationHandler a)
       (s\<lparr>emitted := emitted s @ [EvaluationN a (heap s a)]\<rparr>)
       (evaluationListeners s)"

text \<open>
  The two \<^verbatim>\<open>moveHandler\<close> closures. Both call \<^verbatim>\<open>removeListener\<close> on themselves, which
  finds nothing: the \<^verbatim>\<open>once\<close> wrapper has already removed them.
\<close>

fun moveHandler :: "string option \<Rightarrow> nat option \<Rightarrow> manager \<Rightarrow> bm_listener \<Rightarrow> manager" where
  "moveHandler mv ev s (MoveHandler pid) = settle pid (ResolvedMove mv ev) s"
| "moveHandler mv ev s (EvalMoveHandler pid d) =
     (let s1 = s\<lparr>evaluationListeners :=
                   removeListener (EvaluationHandler pid d) (evaluationListeners s)\<rparr>
      in settle pid
           (ResolvedEval (if pid < length (requests s1)
                          then finalEvaluation (requests s1 ! pid) else None))
           s1)"

text \<open>
  \<^verbatim>\<open>this.emit('bestmove', {move, evaluation})\<close>. The listeners are called from a copy
  of the list, and each \<^verbatim>\<open>once\<close> listener is removed as it is called.
\<close>

definition emitBestmove :: "manager \<Rightarrow> string option \<Rightarrow> nat option \<Rightarrow> manager" where
  "emitBestmove s mv ev =
     foldl (moveHandler mv ev)
       (s\<lparr>emitted := emitted s @ [BestmoveN mv ev], bestmoveListeners := []\<rparr>)
       (bestmoveListeners s)"

section \<open>Output of the engine\<close>

text \<open>Indexing an array: \<open>None\<close> is the \<^verbatim>\<open>undefined\<close> of an index out of range.\<close>

definition jsIndex :: "'a list \<Rightarrow> nat \<Rightarrow> 'a option" where
  "jsIndex xs i = (if i < length xs then Some (xs ! i) else None)"

definition handleBestMove :: "manager \<Rightarrow> string \<Rightarrow> manager" where
  "handleBestMove s line =
     (let parts = splitOn CHR '' '' line;
          bestMove = jsIndex parts 1;
          s1 = (case moveTimeout s of
                  Some i \<Rightarrow> (clearTimeout s i)\<lparr>moveTimeout := None\<rparr>
                | None \<Rightarrow> s)
      in emitBestmove s1 bestMove (currentEvaluation s1))"

text \<open>\<^verbatim>\<open>this.currentEvaluation = {type: t, value: v}\<close>: a fresh object.\<close>

definition setCurrentEvaluation :: "manager \<Rightarrow> string \<Rightarrow> int \<Rightarrow> manager" where
  "setCurrentEvaluation s t v =
     s\<lparr>heap := (heap s)(nextAddr s := \<lparr>etype = t, evalue = v, depth = Undefined,
                                        nodes = Undefined, time = Undefined\<rparr>),
       nextAddr := Suc (nextAddr s),
       currentEvaluation := Some (nextAddr s)\<rparr>"

text \<open>Truthiness of a match result: \<^verbatim>\<open>null\<close> is falsy, a match array truthy.\<close>

definition matched :: "int option \<Rightarrow> bool" where
  "matched m = (m \<noteq> None)"

definition optField :: "int option \<Rightarrow> jsnum" where
  "optField m = (case m of None \<Rightarrow> Null | Some n \<Rightarrow> Num n)"

definition handleInfoLine :: "manager \<Rightarrow> string \<Rightarrow> manager" where
  "handleInfoLine s line =
     (let s1 =
            (if includesStr line ''cp '' then
               (case matchNumber ''cp '' True line of
                  Some v \<Rightarrow> setCurrentEvaluation s ''centipawn'' v
                | None \<Rightarrow> s)
             else if includesStr line ''mate '' then
               (case matchNumber ''mate '' True line of
                  Some v \<Rightarrow> setCurrentEvaluation s ''mate'' v
                | None \<Rightarrow> s)
             else s);
          depthMatch = matchNumber ''depth '' False line;
          nodesMatch = matchNumber ''nodes '' False line;
          timeMatch = matchNumber ''time '' False line
      in case currentEvaluation s1 of
           None \<Rightarrow> s1
         | Some a \<Rightarrow>
             if matched depthMatch \<or> matched nodesMatch then
               emitEvaluation
                 (s1\<lparr>heap := (heap s1)(a := (heap s1 a)\<lparr>depth := optField depthMatch,
                                                         nodes := optField nodesMatch,
                                                         time := optField timeMatch\<rparr>)\<rparr>)
                 a
             else s1)"

text \<open>One iteration of the loop of \<^verbatim>\<open>handleStockfishOutput\<close>.\<close>

definition handleLine :: "manager \<Rightarrow> string \<Rightarrow> manager option" where
  "handleLine s line =
     (let s0 = s\<lparr>console := console s @ [LogStockfish line]\<rparr> in
      if line = ''uciok'' then Some (sendCommand s0 ''isready'')
      else if line = ''readyok'' then
        (if \<not> isReady s0
         then processPendingCommands (s0\<lparr>isReady := True, emitted := emitted s0 @ [Ready]\<rparr>)
         else Some s0)
      else if startsWith line ''bestmove'' then Some (handleBestMove s0 line)
      else if startsWith line ''info'' then Some (handleInfoLine s0 line)
      else Some s0)"

fun handleLines :: "manager \<Rightarrow> string list \<Rightarrow> manager option" where
  "handleLines s [] = Some s"
| "handleLines s (line # rest) =
     (case handleLine s line of
        None \<Rightarrow> None
      | Some s' \<Rightarrow> handleLines s' rest)"

definition handleStockfishOutput :: "manager \<Rightarrow> string \<Rightarrow> manager option" where
  "handleStockfishOutput s output = handleLines s (splitOn nl (trim output))"

section \<open>Operations of the manager\<close>

text \<open>
  \<^verbatim>\<open>initialize\<close>, given the path \<^verbatim>\<open>getStockfishPath\<close> resolved and whether a file exists
  there. The handlers it installs on the process are the events \<open>Stdout\<close>, \<open>Stderr\<close>,
  \<open>Close\<close> and \<open>ProcError\<close> below.
\<close>

definition initialize :: "manager \<Rightarrow> string \<Rightarrow> bool \<Rightarrow> manager" where
  "initialize s stockfishPath exists =
     (if \<not> exists
      then s\<lparr>emitted := emitted s @ [ErrorN (''Stockfish binary not found at: '' @ stockfishPath)]\<rparr>
      else sendCommand
             (s\<lparr>console := console s @ [LogStarting stockfishPath],
                stockfishProcess := Some (spawned s),
                spawned := Suc (spawned s)\<rparr>)
             ''uci'')"

definition onClose :: "manager \<Rightarrow> int option \<Rightarrow> manager" where
  "onClose s code = s\<lparr>console := console s @ [LogClosed code], isReady := False\<rparr>"

definition onError :: "manager \<Rightarrow> string \<Rightarrow> manager" where
  "onError s message =
     s\<lparr>console := console s @ [ErrProcess message], emitted := emitted s @ [ErrorN message]\<rparr>"

definition onStderr :: "manager \<Rightarrow> string \<Rightarrow> manager" where
  "onStderr s d = s\<lparr>console := console s @ [ErrStderr d]\<rparr>"

text \<open>
  \<^verbatim>\<open>getBestMove\<close>: the new request is number \<open>length (requests s)\<close>, its timer number
  \<open>length (timers s)\<close>.
\<close>

definition getBestMove :: "manager \<Rightarrow> string \<Rightarrow> int \<Rightarrow> manager" where
  "getBestMove s fen timeLimit =
     (if \<not> isReady s
      then s\<lparr>requests := requests s @ [\<lparr>outcome = Rejected EngineNotReady, finalEvaluation = None\<rparr>]\<rparr>
      else
        (let s1 = s\<lparr>requests := requests s @ [\<lparr>outcome = Pending, finalEvaluation = None\<rparr>],
                    timers := timers s @ [\<lparr>delay = timeLimit + 1000, tpid = length (requests s),
                                             armed = True\<rparr>],
                    moveTimeout := Some (length (timers s)),
                    bestmoveListeners := bestmoveListeners s @ [MoveHandler (length (requests s))]\<rparr>;
             s2 = sendCommand s1 (''position fen '' @ fen)
         in sendCommand s2 (''go movetime '' @ showInt timeLimit)))"

text \<open>The callback of the timer armed by \<^verbatim>\<open>getBestMove\<close> for request \<open>pid\<close>.\<close>

definition timeoutCallback :: "manager \<Rightarrow> nat \<Rightarrow> manager" where
  "timeoutCallback s pid = settle pid (Rejected Timeout) (sendCommand s ''stop'')"

text \<open>
  The event loop runs the callback of an armed timer once; a timer that was cleared or
  has fired runs nothing.
\<close>

definition fireTimer :: "manager \<Rightarrow> nat \<Rightarrow> manager" where
  "fireTimer s i =
     (if i < length (timers s) \<and> armed (timers s ! i)
      then timeoutCallback (s\<lparr>timers := (timers s)[i := (timers s ! i)\<lparr>armed := False\<rparr>]\<rparr>)
             (tpid (timers s ! i))
      else s)"

definition evaluatePosition :: "manager \<Rightarrow> string \<Rightarrow> int \<Rightarrow> manager" where
  "evaluatePosition s fen d =
     (if \<not> isReady s
      then s\<lparr>requests := requests s @ [\<lparr>outcome = Rejected EngineNotReady, finalEvaluation = None\<rparr>]\<rparr>
      else
        (let s1 = s\<lparr>requests := requests s @ [\<lparr>outcome = Pending, finalEvaluation = None\<rparr>],
                    evaluationListeners :=
                      evaluationListeners s @ [EvaluationHandler (length (requests s)) d],
                    bestmoveListeners :=
                      bestmoveListeners s @ [EvalMoveHandler (length (requests s)) d]\<rparr>;
             s2 = sendCommand s1 (''position fen '' @ fen)
         in sendCommand s2 (''go depth '' @ showInt d)))"

definition setSkillLevel :: "manager \<Rightarrow> int \<Rightarrow> manager" where
  "setSkillLevel s level =
     (let clampedLevel = max 0 (min 20 level);
          s1 = sendCommand s (''setoption name Skill Level value '' @ showInt clampedLevel)
      in if clampedLevel < 20 then sendCommand s1 ''setoption name MultiPV value 1'' else s1)"

definition stop :: "manager \<Rightarrow> manager" where
  "stop s = (if stockfishProcess s \<noteq> None then sendCommand s ''stop'' else s)"

definition quit :: "manager \<Rightarrow> manager" where
  "quit s =
     (if stockfishProcess s \<noteq> None
      then (sendCommand s ''quit'')\<lparr>stockfishProcess := None, isReady := False\<rparr>
      else s)"

section \<open>The manager as an event-driven machine\<close>

datatype event =
  Initialize string bool
| Stdout string
| Stderr string
| Close "int option"
| ProcError string
| TimerFire nat
| SendCommand string
| GetBestMove string int
| EvaluatePosition string int
| SetSkillLevel int
| Stop
| Quit

fun step :: "manager \<Rightarrow> event \<Rightarrow> manager option" where
  "step s (Initialize p ex) = Some (initialize s p ex)"
| "step s (Stdout d) = handleStockfishOutput s d"
| "step s (Stderr d) = Some (onStderr s d)"
| "step s (Close code) = Some (onClose s code)"
| "step s (ProcError m) = Some (onError s m)"
| "step s (TimerFire i) = Some (fireTimer s i)"
| "step s (SendCommand c) = Some (sendCommand s c)"
| "step s (GetBestMove fen t) = Some (getBestMove s fen t)"
| "step s (EvaluatePosition fen d) = Some (evaluatePosition s fen d)"
| "step s (SetSkillLevel l) = Some (setSkillLevel s l)"
| "step s Stop = Some (stop s)"
| "step s Quit = Some (quit s)"

fun run :: "manager \<Rightarrow> event list \<Rightarrow> manager option" where
  "run s [] = Some s"
| "run s (e # es) =
     (case step s e of
        None \<Rightarrow> None
      | Some s' \<Rightarrow> run s' es)"

section \<open>Notions used by the properties\<close>

text \<open>
  A line carries score information when one of the two score patterns,
  \<^verbatim>\<open>/cp (-?\d+)/\<close> or \<^verbatim>\<open>/mate (-?\d+)/\<close>, matches somewhere in it.
\<close>

definition scoreBearing :: "string \<Rightarrow> bool" where
  "scoreBearing line =
     (matched (matchNumber ''cp '' True line) \<or> matched (matchNumber ''mate '' True line))"

text \<open>
  A line makes \<^verbatim>\<open>handleInfoLine\<close> create a new Evaluation object when the branch the code
  takes finds its number: the \<^verbatim>\<open>cp\<close> pattern when the line contains \<^verbatim>\<open>cp \<close>, the \<^verbatim>\<open>mate\<close>
  pattern when it does not and contains \<^verbatim>\<open>mate \<close>. A line that contains \<^verbatim>\<open>cp \<close> without a
  number after it is never tried against the \<^verbatim>\<open>mate\<close> pattern.
\<close>

definition installsScore :: "string \<Rightarrow> bool" where
  "installsScore line =
     (if includesStr line ''cp '' then matched (matchNumber ''cp '' True line)
      else includesStr line ''mate '' \<and> matched (matchNumber ''mate '' True line))"

text \<open>
  The current Evaluation, when there is one, is an object that has been created; true
  of every reachable state.
\<close>

definition allocated :: "manager \<Rightarrow> bool" where
  "allocated s = (case currentEvaluation s of None \<Rightarrow> True | Some b \<Rightarrow> b < nextAddr s)"

text \<open>The events that end the lifetime of a process: its exit, and \<^verbatim>\<open>quit()\<close>.\<close>

fun endsLifetime :: "event \<Rightarrow> bool" where
  "endsLifetime (Close code) = True"
| "endsLifetime Quit = True"
| "endsLifetime e = False"

text \<open>The number of times readiness goes from false to true along a run.\<close>

fun risingEdges :: "manager \<Rightarrow> event list \<Rightarrow> nat" where
  "risingEdges s [] = 0"
| "risingEdges s (e # es) =
     (case step s e of
        None \<Rightarrow> 0
      | Some s' \<Rightarrow> (if \<not> isReady s \<and> isReady s' then 1 else 0) + risingEdges s' es)"

text \<open>
  The two halves of \<^verbatim>\<open>handleInfoLine\<close>, named for the proofs: the score statement, which
  may install a fresh Evaluation object, and the three field assignments on object \<open>a\<close>.
\<close>

definition scoreUpdate :: "manager \<Rightarrow> string \<Rightarrow> manager" where
  "scoreUpdate s line =
     (if includesStr line ''cp '' then
        (case matchNumber ''cp '' True line of
           Some v \<Rightarrow> setCurrentEvaluation s ''centipawn'' v
         | None \<Rightarrow> s)
      else if includesStr line ''mate '' then
        (case matchNumber ''mate '' True line of
           Some v \<Rightarrow> setCurrentEvaluation s ''mate'' v
         | None \<Rightarrow> s)
      else s)"

definition fieldsUpdate :: "manager \<Rightarrow> string \<Rightarrow> nat \<Rightarrow> manager" where
  "fieldsUpdate s line a =
     s\<lparr>heap := (heap s)(a := (heap s a)\<lparr>depth := optField (matchNumber ''depth '' False line),
                                           nodes := optField (matchNumber ''nodes '' False line),
                                           time := optField (matchNumber ''time '' False line)\<rparr>)\<rparr>"

text \<open>
  A run during which the manager is never ready, and the two writes of the handshake.
\<close>

fun neverReady :: "manager \<Rightarrow> event list \<Rightarrow> bool" where
  "neverReady s [] = (\<not> isReady s)"
| "neverReady s (e # es) =
     (\<not> isReady s \<and> (case step s e of None \<Rightarrow> False | Some s' \<Rightarrow> neverReady s' es))"

definition handshakeWrite :: "nat \<times> string \<Rightarrow> bool" where
  "handshakeWrite w = (snd w = ''uci'' @ [nl] \<or> snd w = ''isready'' @ [nl])"

text \<open>
  From \<open>s\<close> to \<open>s'\<close> only handshake commands were written, and the queue of \<open>s\<close> is
  still the head of the queue of \<open>s'\<close>, in the same order.
\<close>

definition quietStep :: "manager \<Rightarrow> manager \<Rightarrow> bool" where
  "quietStep s s' \<longleftrightarrow>
     (\<exists>ws qs. stdin s' = stdin s @ ws \<and> list_all handshakeWrite ws
        \<and> pendingCommands s' = pendingCommands s @ qs)"

text \<open>The first whitespace-delimited token of a string.\<close>

definition firstToken :: "string \<Rightarrow> string" where
  "firstToken s = takeWhile (\<lambda>c. \<not> isSpace c) (dropWhile isSpace s)"

text \<open>The numbers of the timers that are armed.\<close>

definition armedTimers :: "manager \<Rightarrow> nat list" where
  "armedTimers s = filter (\<lambda>i. armed (timers s ! i)) [0..<length (timers s)]"

text \<open>
  An event that brings an info line with score information: a chunk of output one of
  whose lines starts with \<^verbatim>\<open>info\<close> and matches a score pattern.
\<close>

fun scoreEvent :: "event \<Rightarrow> bool" where
  "scoreEvent (Stdout d) =
     list_ex (\<lambda>l. startsWith l ''info'' \<and> scoreBearing l) (splitOn nl (trim d))"
| "scoreEvent e = False"

text \<open>An event that brings a line the manager treats as a best-move line.\<close>

fun bestmoveEvent :: "event \<Rightarrow> bool" where
  "bestmoveEvent (Stdout d) = list_ex (\<lambda>l. startsWith l ''bestmove'') (splitOn nl (trim d))"
| "bestmoveEvent e = False"

text \<open>
  Every timer belongs to a request that exists. This holds in every state a new manager
  can reach.
\<close>

definition wfTimers :: "manager \<Rightarrow> bool" where
  "wfTimers s = list_all (\<lambda>t. tpid t < length (requests s)) (timers s)"

text \<open>
  Timer \<open>tid\<close> is armed for request \<open>pid\<close>, the request is still pending, and no other
  timer belongs to it.
\<close>

definition timerPending :: "nat \<Rightarrow> nat \<Rightarrow> int \<Rightarrow> manager \<Rightarrow> bool" where
  "timerPending tid pid dl s \<longleftrightarrow>
     tid < length (timers s)
     \<and> timers s ! tid = \<lparr>delay = dl, tpid = pid, armed = True\<rparr>
     \<and> pid < length (requests s)
     \<and> outcome (requests s ! pid) = Pending
     \<and> (\<forall>j<length (timers s). j \<noteq> tid \<longrightarrow> tpid (timers s ! j) \<noteq> pid)"

text \<open>The request a listener belongs to.\<close>

fun bmPid :: "bm_listener \<Rightarrow> nat" where
  "bmPid (MoveHandler pid) = pid"
| "bmPid (EvalMoveHandler pid d) = pid"

fun evPid :: "ev_listener \<Rightarrow> nat" where
  "evPid (EvaluationHandler pid d) = pid"

text \<open>Every listener belongs to a request that exists; true of every reachable state.\<close>

definition wfListeners :: "manager \<Rightarrow> bool" where
  "wfListeners s =
     (list_all (\<lambda>l. bmPid l < length (requests s)) (bestmoveListeners s)
      \<and> list_all (\<lambda>l. evPid l < length (requests s)) (evaluationListeners s))"

text \<open>
  An evaluation notification qualifies for target depth \<open>d\<close> when the depth it reported
  is a number, at least \<open>d\<close>. The last qualifying notification of a list gives the
  retained reference; without one there is none.
\<close>

fun qualifying :: "int \<Rightarrow> notification \<Rightarrow> bool" where
  "qualifying d (EvaluationN a e) = (case depth e of Num k \<Rightarrow> d \<le> k | Null \<Rightarrow> False | Undefined \<Rightarrow> False)"
| "qualifying d n = False"

fun reference :: "notification \<Rightarrow> nat option" where
  "reference (EvaluationN a e) = Some a"
| "reference n = None"

definition lastQualifying :: "int \<Rightarrow> notification list \<Rightarrow> nat option" where
  "lastQualifying d ns =
     (case rev (filter (qualifying d) ns) of
        [] \<Rightarrow> None
      | n # _ \<Rightarrow> reference n)"

text \<open>
  The evaluation request \<open>pid\<close> with target depth \<open>d\<close> is in flight: it is pending, its two
  listeners are registered, no other listener and no timer belongs to it, and the
  reference it has retained is the last qualifying notification emitted since \<open>base\<close>.
\<close>

definition evalPending :: "nat \<Rightarrow> int \<Rightarrow> notification list \<Rightarrow> manager \<Rightarrow> bool" where
  "evalPending pid d base s \<longleftrightarrow>
     pid < length (requests s)
     \<and> outcome (requests s ! pid) = Pending
     \<and> EvaluationHandler pid d \<in> set (evaluationListeners s)
     \<and> (\<forall>l\<in>set (evaluationListeners s). evPid l = pid \<longrightarrow> l = EvaluationHandler pid d)
     \<and> EvalMoveHandler pid d \<in> set (bestmoveListeners s)
     \<and> (\<forall>l\<in>set (bestmoveListeners s). bmPid l = pid \<longrightarrow> l = EvalMoveHandler pid d)
     \<and> (\<forall>t\<in>set (timers s). tpid t \<noteq> pid)
     \<and> (\<exists>ns. emitted s = base @ ns
            \<and> finalEvaluation (requests s ! pid) = lastQualifying d ns)"

section \<open>Basic lemmas\<close>

subsection \<open>Sending and flushing\<close>

lemma sendCommand_ready:
  "isReady s \<Longrightarrow> stockfishProcess s = Some p \<Longrightarrow>
   sendCommand s c = s\<lparr>console := console s @ [LogSending c], stdin := stdin s @ [(p, c @ [nl])]\<rparr>"
  by (simp add: sendCommand_def)

lemma sendCommand_no_process:
  "stockfishProcess s = None \<Longrightarrow> sendCommand s c = s\<lparr>console := console s @ [ErrNotStarted]\<rparr>"
  by (simp add: sendCommand_def)

lemma sendCommand_queued:
  "\<not> isReady s \<Longrightarrow> stockfishProcess s = Some p \<Longrightarrow> c \<noteq> ''uci'' \<Longrightarrow> c \<noteq> ''isready'' \<Longrightarrow>
   sendCommand s c = s\<lparr>pendingCommands := pendingCommands s @ [c]\<rparr>"
  by (simp add: sendCommand_def)

lemma sendCommand_shape:
  "\<exists>pc co si. sendCommand s c = s\<lparr>pendingCommands := pc, console := co, stdin := si\<rparr>"
proof (cases "stockfishProcess s")
  case None
  have "sendCommand s c = s\<lparr>pendingCommands := pendingCommands s,
          console := console s @ [ErrNotStarted], stdin := stdin s\<rparr>"
    using None by (simp add: sendCommand_def)
  then show ?thesis by blast
next
  case (Some p)
  show ?thesis
  proof (cases "\<not> isReady s \<and> c \<noteq> ''uci'' \<and> c \<noteq> ''isready''")
    case True
    have "sendCommand s c = s\<lparr>pendingCommands := pendingCommands s @ [c],
            console := console s, stdin := stdin s\<rparr>"
      using Some True by (simp add: sendCommand_def)
    then show ?thesis by blast
  next
    case False
    have "sendCommand s c = s\<lparr>pendingCommands := pendingCommands s,
            console := console s @ [LogSending c], stdin := stdin s @ [(p, c @ [nl])]\<rparr>"
      using Some False by (auto simp add: sendCommand_def)
    then show ?thesis by blast
  qed
qed

text \<open>
  On a ready manager with a process the loop returns, having written the whole queue
  in order.
\<close>

lemma processPendingCommands_ready:
  "isReady s \<Longrightarrow> stockfishProcess s = Some p \<Longrightarrow>
   processPendingCommands s =
     Some (s\<lparr>pendingCommands := [],
             console := console s @ map LogSending (pendingCommands s),
             stdin := stdin s @ map (\<lambda>c. (p, c @ [nl])) (pendingCommands s)\<rparr>)"
proof (induction "pendingCommands s" arbitrary: s)
  case Nil
  then show ?case
    by (subst processPendingCommands.simps) simp
next
  case (Cons c cs)
  let ?s' = "sendCommand (s\<lparr>pendingCommands := cs\<rparr>) c"
  have s': "?s' = s\<lparr>pendingCommands := cs, console := console s @ [LogSending c],
                     stdin := stdin s @ [(p, c @ [nl])]\<rparr>"
    using Cons.prems by (simp add: sendCommand_def)
  have "processPendingCommands s = processPendingCommands ?s'"
    using Cons.hyps(2) [symmetric] by (subst processPendingCommands.simps) simp
  also have "\<dots> = Some (?s'\<lparr>pendingCommands := [],
             console := console ?s' @ map LogSending (pendingCommands ?s'),
             stdin := stdin ?s' @ map (\<lambda>c. (p, c @ [nl])) (pendingCommands ?s')\<rparr>)"
    using Cons.prems by (intro Cons.hyps(1)) (simp_all add: s')
  finally show ?case
    using Cons.hyps(2) [symmetric] by (simp add: s')
qed

text \<open>Without a process handle the loop returns too: every command is dropped.\<close>

lemma processPendingCommands_no_process:
  "stockfishProcess s = None \<Longrightarrow>
   processPendingCommands s =
     Some (s\<lparr>pendingCommands := [],
             console := console s @ map (\<lambda>c. ErrNotStarted) (pendingCommands s)\<rparr>)"
proof (induction "pendingCommands s" arbitrary: s)
  case Nil
  then show ?case
    by (subst processPendingCommands.simps) simp
next
  case (Cons c cs)
  let ?s' = "sendCommand (s\<lparr>pendingCommands := cs\<rparr>) c"
  have s': "?s' = s\<lparr>pendingCommands := cs, console := console s @ [ErrNotStarted]\<rparr>"
    using Cons.prems by (simp add: sendCommand_def)
  have "processPendingCommands s = processPendingCommands ?s'"
    using Cons.hyps(2) [symmetric] by (subst processPendingCommands.simps) simp
  also have "\<dots> = Some (?s'\<lparr>pendingCommands := [],
             console := console ?s' @ map (\<lambda>c. ErrNotStarted) (pendingCommands ?s')\<rparr>)"
    using Cons.prems by (intro Cons.hyps(1)) (simp_all add: s')
  finally show ?case
    using Cons.hyps(2) [symmetric] by (simp add: s')
qed

subsection \<open>Which fields an operation can touch\<close>

lemma settle_shape:
  "\<exists>rs. settle pid oc s = s\<lparr>requests := rs\<rparr>"
proof (cases "pid < length (requests s) \<and> outcome (requests s ! pid) = Pending")
  case True
  then show ?thesis by (auto simp add: settle_def)
next
  case False
  then have "settle pid oc s = s\<lparr>requests := requests s\<rparr>" by (auto simp add: settle_def)
  then show ?thesis by blast
qed

lemma moveHandler_shape:
  "\<exists>rs els. moveHandler mv ev s l = s\<lparr>requests := rs, evaluationListeners := els\<rparr>"
proof (cases l)
  case (MoveHandler pid)
  obtain rs where "settle pid (ResolvedMove mv ev) s = s\<lparr>requests := rs\<rparr>"
    using settle_shape by blast
  then have "moveHandler mv ev s l = s\<lparr>requests := rs, evaluationListeners := evaluationListeners s\<rparr>"
    using MoveHandler by simp
  then show ?thesis by blast
next
  case (EvalMoveHandler pid d)
  let ?s1 = "s\<lparr>evaluationListeners := removeListener (EvaluationHandler pid d) (evaluationListeners s)\<rparr>"
  obtain rs where "settle pid (ResolvedEval (if pid < length (requests ?s1)
                          then finalEvaluation (requests ?s1 ! pid) else None)) ?s1 = ?s1\<lparr>requests := rs\<rparr>"
    using settle_shape by blast
  then have "moveHandler mv ev s l = s\<lparr>requests := rs,
      evaluationListeners := removeListener (EvaluationHandler pid d) (evaluationListeners s)\<rparr>"
    using EvalMoveHandler by (simp add: Let_def)
  then show ?thesis by blast
qed

lemma foldl_moveHandler_shape:
  "\<exists>rs els. foldl (moveHandler mv ev) s ls = s\<lparr>requests := rs, evaluationListeners := els\<rparr>"
proof (induction ls arbitrary: s)
  case Nil
  have "s = s\<lparr>requests := requests s, evaluationListeners := evaluationListeners s\<rparr>" by simp
  then show ?case by (metis foldl_Nil)
next
  case (Cons l ls)
  obtain rs els where 1: "moveHandler mv ev s l = s\<lparr>requests := rs, evaluationListeners := els\<rparr>"
    using moveHandler_shape by blast
  obtain rs' els' where 2: "foldl (moveHandler mv ev) (moveHandler mv ev s l) ls
      = (moveHandler mv ev s l)\<lparr>requests := rs', evaluationListeners := els'\<rparr>"
    using Cons.IH by blast
  have "foldl (moveHandler mv ev) s (l # ls) = s\<lparr>requests := rs', evaluationListeners := els'\<rparr>"
    using 2 by (simp add: 1)
  then show ?case by blast
qed

lemma emitBestmove_shape:
  "\<exists>rs els. emitBestmove s mv ev =
     s\<lparr>emitted := emitted s @ [BestmoveN mv ev], bestmoveListeners := [],
       requests := rs, evaluationListeners := els\<rparr>"
proof -
  obtain rs els where "foldl (moveHandler mv ev)
       (s\<lparr>emitted := emitted s @ [BestmoveN mv ev], bestmoveListeners := []\<rparr>) (bestmoveListeners s)
     = (s\<lparr>emitted := emitted s @ [BestmoveN mv ev], bestmoveListeners := []\<rparr>)
         \<lparr>requests := rs, evaluationListeners := els\<rparr>"
    using foldl_moveHandler_shape by blast
  then show ?thesis unfolding emitBestmove_def by auto
qed

lemma evaluationHandler_shape:
  "\<exists>rs. evaluationHandler a s l = s\<lparr>requests := rs\<rparr>"
proof (cases l)
  case (EvaluationHandler pid d)
  show ?thesis
  proof (cases "jsGe (depth (heap s a)) d")
    case True
    then show ?thesis using EvaluationHandler by auto
  next
    case False
    then have "evaluationHandler a s l = s\<lparr>requests := requests s\<rparr>"
      using EvaluationHandler by simp
    then show ?thesis by blast
  qed
qed

lemma foldl_evaluationHandler_shape:
  "\<exists>rs. foldl (evaluationHandler a) s ls = s\<lparr>requests := rs\<rparr>"
proof (induction ls arbitrary: s)
  case Nil
  have "s = s\<lparr>requests := requests s\<rparr>" by simp
  then show ?case by (metis foldl_Nil)
next
  case (Cons l ls)
  obtain rs where 1: "evaluationHandler a s l = s\<lparr>requests := rs\<rparr>"
    using evaluationHandler_shape by blast
  obtain rs' where 2: "foldl (evaluationHandler a) (evaluationHandler a s l) ls
      = (evaluationHandler a s l)\<lparr>requests := rs'\<rparr>"
    using Cons.IH by blast
  have "foldl (evaluationHandler a) s (l # ls) = s\<lparr>requests := rs'\<rparr>"
    using 2 by (simp add: 1)
  then show ?case by blast
qed

lemma emitEvaluation_shape:
  "\<exists>rs. emitEvaluation s a =
     s\<lparr>emitted := emitted s @ [EvaluationN a (heap s a)], requests := rs\<rparr>"
proof -
  obtain rs where "foldl (evaluationHandler a)
       (s\<lparr>emitted := emitted s @ [EvaluationN a (heap s a)]\<rparr>) (evaluationListeners s)
     = (s\<lparr>emitted := emitted s @ [EvaluationN a (heap s a)]\<rparr>)\<lparr>requests := rs\<rparr>"
    using foldl_evaluationHandler_shape by blast
  then show ?thesis unfolding emitEvaluation_def by auto
qed

lemma handleBestMove_shape:
  "\<exists>ts mt rs els. handleBestMove s line =
     s\<lparr>moveTimeout := mt, timers := ts,
       emitted := emitted s @ [BestmoveN (jsIndex (splitOn CHR '' '' line) 1) (currentEvaluation s)],
       bestmoveListeners := [], requests := rs, evaluationListeners := els\<rparr>"
proof -
  let ?mv = "jsIndex (splitOn CHR '' '' line) 1"
  let ?s1 = "(case moveTimeout s of
                  Some i \<Rightarrow> (clearTimeout s i)\<lparr>moveTimeout := None\<rparr>
                | None \<Rightarrow> s)"
  have s1: "\<exists>ts mt. ?s1 = s\<lparr>moveTimeout := mt, timers := ts\<rparr>"
  proof (cases "moveTimeout s")
    case None
    have "s = s\<lparr>moveTimeout := moveTimeout s, timers := timers s\<rparr>" by simp
    then show ?thesis using None by (metis option.simps(4))
  next
    case (Some i)
    have "?s1 = s\<lparr>moveTimeout := None, timers := (timers s)[i := (timers s ! i)\<lparr>armed := False\<rparr>]\<rparr>"
      using Some by (simp add: clearTimeout_def)
    then show ?thesis by blast
  qed
  then obtain ts mt where 1: "?s1 = s\<lparr>moveTimeout := mt, timers := ts\<rparr>" by blast
  obtain rs els where 2: "emitBestmove ?s1 ?mv (currentEvaluation ?s1) =
     ?s1\<lparr>emitted := emitted ?s1 @ [BestmoveN ?mv (currentEvaluation ?s1)], bestmoveListeners := [],
       requests := rs, evaluationListeners := els\<rparr>"
    using emitBestmove_shape by blast
  have "handleBestMove s line = emitBestmove ?s1 ?mv (currentEvaluation ?s1)"
    by (simp add: handleBestMove_def Let_def)
  also have "\<dots> = s\<lparr>moveTimeout := mt, timers := ts,
       emitted := emitted s @ [BestmoveN ?mv (currentEvaluation s)],
       bestmoveListeners := [], requests := rs, evaluationListeners := els\<rparr>"
    unfolding 2 unfolding 1 by simp
  finally show ?thesis by blast
qed

lemma handleInfoLine_alt:
  "handleInfoLine s line =
    (case currentEvaluation (scoreUpdate s line) of
       None \<Rightarrow> scoreUpdate s line
     | Some a \<Rightarrow>
         if matched (matchNumber ''depth '' False line) \<or> matched (matchNumber ''nodes '' False line)
         then emitEvaluation (fieldsUpdate (scoreUpdate s line) line a) a
         else scoreUpdate s line)"
  unfolding handleInfoLine_def scoreUpdate_def fieldsUpdate_def Let_def by (rule refl)

lemma scoreUpdate_shape:
  "\<exists>h n ce. scoreUpdate s line = s\<lparr>heap := h, nextAddr := n, currentEvaluation := ce\<rparr>"
proof -
  define P where "P x \<longleftrightarrow> (\<exists>h n ce. x = s\<lparr>heap := h, nextAddr := n, currentEvaluation := ce\<rparr>)" for x
  have "s = s\<lparr>heap := heap s, nextAddr := nextAddr s, currentEvaluation := currentEvaluation s\<rparr>"
    by simp
  then have Ps: "P s" unfolding P_def by blast
  have Pset: "P (setCurrentEvaluation s t v)" for t v
    unfolding P_def setCurrentEvaluation_def by blast
  have "P (scoreUpdate s line)"
    unfolding scoreUpdate_def using Ps Pset by (simp split: option.splits)
  then show ?thesis unfolding P_def .
qed

lemma scoreUpdate_no_score:
  "\<not> scoreBearing line \<Longrightarrow> scoreUpdate s line = s"
  by (simp add: scoreUpdate_def scoreBearing_def matched_def)

lemma handleInfoLine_shape:
  "\<exists>h n ce em rs. handleInfoLine s line =
     s\<lparr>heap := h, nextAddr := n, currentEvaluation := ce, emitted := em, requests := rs\<rparr>"
proof -
  define s1 where "s1 = scoreUpdate s line"
  obtain h n ce where 1: "s1 = s\<lparr>heap := h, nextAddr := n, currentEvaluation := ce\<rparr>"
    unfolding s1_def using scoreUpdate_shape by blast
  have keep: "s1 = s\<lparr>heap := h, nextAddr := n, currentEvaluation := ce,
       emitted := emitted s, requests := requests s\<rparr>"
    using 1 by simp
  note H = handleInfoLine_alt [of s line, folded s1_def]
  show ?thesis
  proof (cases "currentEvaluation s1")
    case None
    then have "handleInfoLine s line = s1" using H by simp
    then show ?thesis using keep by metis
  next
    case (Some a)
    show ?thesis
    proof (cases "matched (matchNumber ''depth '' False line) \<or> matched (matchNumber ''nodes '' False line)")
      case False
      then have "handleInfoLine s line = s1" using H Some by simp
      then show ?thesis using keep by metis
    next
      case True
      define s2 where "s2 = fieldsUpdate s1 line a"
      have "handleInfoLine s line = emitEvaluation s2 a"
        using H Some True unfolding s2_def by simp
      moreover obtain rs where "emitEvaluation s2 a =
         s2\<lparr>emitted := emitted s2 @ [EvaluationN a (heap s2 a)], requests := rs\<rparr>"
        using emitEvaluation_shape by blast
      ultimately have "handleInfoLine s line =
         s2\<lparr>emitted := emitted s2 @ [EvaluationN a (heap s2 a)], requests := rs\<rparr>"
        by simp
      then have "handleInfoLine s line = s\<lparr>heap := heap s2, nextAddr := n, currentEvaluation := ce,
         emitted := emitted s2 @ [EvaluationN a (heap s2 a)], requests := rs\<rparr>"
        unfolding s2_def fieldsUpdate_def 1 by simp
      then show ?thesis by blast
    qed
  qed
qed

subsection \<open>Fields an operation leaves alone\<close>

lemma sendCommand_frame [simp]:
  "stockfishProcess (sendCommand s c) = stockfishProcess s"
  "isReady (sendCommand s c) = isReady s"
  "currentEvaluation (sendCommand s c) = currentEvaluation s"
  "moveTimeout (sendCommand s c) = moveTimeout s"
  "heap (sendCommand s c) = heap s"
  "nextAddr (sendCommand s c) = nextAddr s"
  "spawned (sendCommand s c) = spawned s"
  "emitted (sendCommand s c) = emitted s"
  "timers (sendCommand s c) = timers s"
  "requests (sendCommand s c) = requests s"
  "bestmoveListeners (sendCommand s c) = bestmoveListeners s"
  "evaluationListeners (sendCommand s c) = evaluationListeners s"
  using sendCommand_shape [of s c] by auto

lemma settle_frame [simp]:
  "stockfishProcess (settle pid oc s) = stockfishProcess s"
  "isReady (settle pid oc s) = isReady s"
  "pendingCommands (settle pid oc s) = pendingCommands s"
  "currentEvaluation (settle pid oc s) = currentEvaluation s"
  "moveTimeout (settle pid oc s) = moveTimeout s"
  "heap (settle pid oc s) = heap s"
  "nextAddr (settle pid oc s) = nextAddr s"
  "stdin (settle pid oc s) = stdin s"
  "spawned (settle pid oc s) = spawned s"
  "emitted (settle pid oc s) = emitted s"
  "console (settle pid oc s) = console s"
  "timers (settle pid oc s) = timers s"
  "bestmoveListeners (settle pid oc s) = bestmoveListeners s"
  "evaluationListeners (settle pid oc s) = evaluationListeners s"
  using settle_shape [of pid oc s] by auto

lemma emitBestmove_frame [simp]:
  "stockfishProcess (emitBestmove s mv ev) = stockfishProcess s"
  "isReady (emitBestmove s mv ev) = isReady s"
  "pendingCommands (emitBestmove s mv ev) = pendingCommands s"
  "currentEvaluation (emitBestmove s mv ev) = currentEvaluation s"
  "moveTimeout (emitBestmove s mv ev) = moveTimeout s"
  "heap (emitBestmove s mv ev) = heap s"
  "nextAddr (emitBestmove s mv ev) = nextAddr s"
  "stdin (emitBestmove s mv ev) = stdin s"
  "spawned (emitBestmove s mv ev) = spawned s"
  "console (emitBestmove s mv ev) = console s"
  "timers (emitBestmove s mv ev) = timers s"
  using emitBestmove_shape [of s mv ev] by auto

lemma emitEvaluation_frame [simp]:
  "stockfishProcess (emitEvaluation s a) = stockfishProcess s"
  "isReady (emitEvaluation s a) = isReady s"
  "pendingCommands (emitEvaluation s a) = pendingCommands s"
  "currentEvaluation (emitEvaluation s a) = currentEvaluation s"
  "moveTimeout (emitEvaluation s a) = moveTimeout s"
  "heap (emitEvaluation s a) = heap s"
  "nextAddr (emitEvaluation s a) = nextAddr s"
  "stdin (emitEvaluation s a) = stdin s"
  "spawned (emitEvaluation s a) = spawned s"
  "console (emitEvaluation s a) = console s"
  "timers (emitEvaluation s a) = timers s"
  "bestmoveListeners (emitEvaluation s a) = bestmoveListeners s"
  "evaluationListeners (emitEvaluation s a) = evaluationListeners s"
  using emitEvaluation_shape [of s a] by auto

lemma handleBestMove_frame [simp]:
  "stockfishProcess (handleBestMove s line) = stockfishProcess s"
  "isReady (handleBestMove s line) = isReady s"
  "pendingCommands (handleBestMove s line) = pendingCommands s"
  "currentEvaluation (handleBestMove s line) = currentEvaluation s"
  "heap (handleBestMove s line) = heap s"
  "nextAddr (handleBestMove s line) = nextAddr s"
  "stdin (handleBestMove s line) = stdin s"
  "spawned (handleBestMove s line) = spawned s"
  "console (handleBestMove s line) = console s"
  using handleBestMove_shape [of s line] by auto

lemma scoreUpdate_frame [simp]:
  "stockfishProcess (scoreUpdate s line) = stockfishProcess s"
  "isReady (scoreUpdate s line) = isReady s"
  "pendingCommands (scoreUpdate s line) = pendingCommands s"
  "moveTimeout (scoreUpdate s line) = moveTimeout s"
  "stdin (scoreUpdate s line) = stdin s"
  "spawned (scoreUpdate s line) = spawned s"
  "emitted (scoreUpdate s line) = emitted s"
  "console (scoreUpdate s line) = console s"
  "timers (scoreUpdate s line) = timers s"
  "requests (scoreUpdate s line) = requests s"
  "bestmoveListeners (scoreUpdate s line) = bestmoveListeners s"
  "evaluationListeners (scoreUpdate s line) = evaluationListeners s"
  using scoreUpdate_shape [of s line] by auto

lemma handleInfoLine_frame [simp]:
  "stockfishProcess (handleInfoLine s line) = stockfishProcess s"
  "isReady (handleInfoLine s line) = isReady s"
  "pendingCommands (handleInfoLine s line) = pendingCommands s"
  "moveTimeout (handleInfoLine s line) = moveTimeout s"
  "stdin (handleInfoLine s line) = stdin s"
  "spawned (handleInfoLine s line) = spawned s"
  "console (handleInfoLine s line) = console s"
  "timers (handleInfoLine s line) = timers s"
  "bestmoveListeners (handleInfoLine s line) = bestmoveListeners s"
  "evaluationListeners (handleInfoLine s line) = evaluationListeners s"
  using handleInfoLine_shape [of s line] by auto

section \<open>Readiness and the command queue\<close>

lemma handleLine_isReady_mono:
  "handleLine s line = Some s' \<Longrightarrow> isReady s \<Longrightarrow> isReady s'"
  by (auto simp add: handleLine_def Let_def split: if_splits)

lemma handleLines_isReady_mono:
  "handleLines s ls = Some s' \<Longrightarrow> isReady s \<Longrightarrow> isReady s'"
  by (induction ls arbitrary: s) (auto split: option.splits dest: handleLine_isReady_mono)

lemma step_isReady_mono:
  "step s e = Some s' \<Longrightarrow> \<not> endsLifetime e \<Longrightarrow> isReady s \<Longrightarrow> isReady s'"
  by (cases e)
     (auto simp add: handleStockfishOutput_def initialize_def onStderr_def onError_def
        fireTimer_def timeoutCallback_def getBestMove_def evaluatePosition_def
        setSkillLevel_def stop_def Let_def
        dest: handleLines_isReady_mono split: if_splits)

lemma risingEdges_ready:
  "isReady s \<Longrightarrow> \<forall>e\<in>set es. \<not> endsLifetime e \<Longrightarrow> risingEdges s es = 0"
  by (induction es arbitrary: s) (auto split: option.splits dest: step_isReady_mono)

lemma risingEdges_le_1:
  "\<forall>e\<in>set es. \<not> endsLifetime e \<Longrightarrow> risingEdges s es \<le> 1"
proof (induction es arbitrary: s)
  case Nil
  then show ?case by simp
next
  case (Cons e es)
  show ?case
  proof (cases "step s e")
    case None
    then show ?thesis by simp
  next
    case (Some s')
    show ?thesis
    proof (cases "isReady s'")
      case True
      then have "risingEdges s' es = 0"
        using Cons.prems by (intro risingEdges_ready) auto
      then show ?thesis using Some by simp
    next
      case False
      moreover have "risingEdges s' es \<le> 1" using Cons by auto
      ultimately show ?thesis using Some by simp
    qed
  qed
qed

lemma readyok_first:
  "\<not> isReady s \<Longrightarrow>
   handleLine s ''readyok'' =
     Some (s\<lparr>isReady := True, emitted := emitted s @ [Ready], pendingCommands := [],
            console := console s @ [LogStockfish ''readyok''] @
              (case stockfishProcess s of
                 None \<Rightarrow> map (\<lambda>c. ErrNotStarted) (pendingCommands s)
               | Some p \<Rightarrow> map LogSending (pendingCommands s)),
            stdin := stdin s @
              (case stockfishProcess s of
                 None \<Rightarrow> []
               | Some p \<Rightarrow> map (\<lambda>c. (p, c @ [nl])) (pendingCommands s))\<rparr>)"
  by (cases "stockfishProcess s")
     (simp_all add: handleLine_def processPendingCommands_no_process processPendingCommands_ready)

lemma readyok_again:
  "isReady s \<Longrightarrow>
   handleLine s ''readyok'' = Some (s\<lparr>console := console s @ [LogStockfish ''readyok'']\<rparr>)"
  by (simp add: handleLine_def)

text \<open>
  Every handler returns: the flush is only ever started on a manager that has just
  become ready.
\<close>

lemma handleLine_total:
  "\<exists>s'. handleLine s line = Some s'"
proof (cases "line = ''readyok'' \<and> \<not> isReady s")
  case True
  then show ?thesis using readyok_first [of s] by simp
next
  case False
  then show ?thesis by (auto simp add: handleLine_def Let_def)
qed

lemma handleLines_total:
  "\<exists>s'. handleLines s ls = Some s'"
proof (induction ls arbitrary: s)
  case Nil
  then show ?case by simp
next
  case (Cons l ls)
  obtain s1 where "handleLine s l = Some s1" using handleLine_total by blast
  then show ?case using Cons.IH [of s1] by simp
qed

lemma step_total:
  "\<exists>s'. step s e = Some s'"
  by (cases e) (simp_all add: handleStockfishOutput_def handleLines_total)

lemma run_total:
  "\<exists>s'. run s es = Some s'"
proof (induction es arbitrary: s)
  case Nil
  then show ?case by simp
next
  case (Cons e es)
  obtain s1 where "step s e = Some s1" using step_total by blast
  then show ?case using Cons.IH [of s1] by simp
qed

lemma quietStep_refl: "stdin s' = stdin s \<Longrightarrow> pendingCommands s' = pendingCommands s \<Longrightarrow> quietStep s s'"
  by (simp add: quietStep_def)

lemma quietStep_trans: "quietStep s s1 \<Longrightarrow> quietStep s1 s2 \<Longrightarrow> quietStep s s2"
  unfolding quietStep_def
  by (metis append.assoc list_all_append)

lemma sendCommand_quiet:
  "\<not> isReady s \<Longrightarrow> quietStep s (sendCommand s c)"
  by (cases "stockfishProcess s")
     (auto simp add: sendCommand_def quietStep_def handshakeWrite_def)

lemma handleLine_quiet:
  assumes "handleLine s line = Some s'" "\<not> isReady s'"
  shows "quietStep s s'"
proof -
  have nr: "\<not> isReady s" using assms handleLine_isReady_mono by blast
  let ?s0 = "s\<lparr>console := console s @ [LogStockfish line]\<rparr>"
  have q0: "quietStep s ?s0" by (simp add: quietStep_refl)
  consider (uciok) "line = ''uciok''" | (readyok) "line = ''readyok''"
    | (bm) "line \<noteq> ''uciok''" "line \<noteq> ''readyok''" "startsWith line ''bestmove''"
    | (info) "line \<noteq> ''uciok''" "line \<noteq> ''readyok''" "\<not> startsWith line ''bestmove''" "startsWith line ''info''"
    | (other) "line \<noteq> ''uciok''" "line \<noteq> ''readyok''" "\<not> startsWith line ''bestmove''" "\<not> startsWith line ''info''"
    by blast
  then show ?thesis
  proof cases
    case uciok
    then have "s' = sendCommand ?s0 ''isready''" using assms(1) by (simp add: handleLine_def)
    moreover have "quietStep ?s0 (sendCommand ?s0 ''isready'')"
      using nr by (intro sendCommand_quiet) simp
    ultimately show ?thesis using q0 quietStep_trans by blast
  next
    case readyok
    then have "isReady s'" using assms(1) nr readyok_first [of s] by auto
    then show ?thesis using assms(2) by simp
  next
    case bm
    then have "s' = handleBestMove ?s0 line" using assms(1) by (simp add: handleLine_def)
    then show ?thesis by (simp add: quietStep_refl)
  next
    case info
    then have "s' = handleInfoLine ?s0 line" using assms(1) by (simp add: handleLine_def)
    then show ?thesis by (simp add: quietStep_refl)
  next
    case other
    then have "s' = ?s0" using assms(1) by (simp add: handleLine_def)
    then show ?thesis by (simp add: quietStep_refl)
  qed
qed

lemma handleLines_quiet:
  "handleLines s ls = Some s' \<Longrightarrow> \<not> isReady s' \<Longrightarrow> quietStep s s'"
proof (induction ls arbitrary: s)
  case Nil
  then show ?case by (simp add: quietStep_refl)
next
  case (Cons l ls)
  then obtain s1 where 1: "handleLine s l = Some s1" and 2: "handleLines s1 ls = Some s'"
    by (auto split: option.splits)
  have "\<not> isReady s1" using 2 Cons.prems(2) handleLines_isReady_mono by blast
  then have "quietStep s s1" using 1 handleLine_quiet by blast
  moreover have "quietStep s1 s'" using Cons.IH 2 Cons.prems(2) by blast
  ultimately show ?case using quietStep_trans by blast
qed

lemma step_quiet:
  assumes "step s e = Some s'" "\<not> isReady s" "\<not> isReady s'"
  shows "quietStep s s'"
proof (cases e)
  case (Initialize p ex)
  show ?thesis
  proof (cases ex)
    case False
    then show ?thesis using assms Initialize by (auto simp add: initialize_def intro!: quietStep_refl)
  next
    case True
    define s1 where "s1 = s\<lparr>console := console s @ [LogStarting p],
                stockfishProcess := Some (spawned s), spawned := Suc (spawned s)\<rparr>"
    have s': "s' = sendCommand s1 ''uci''"
      using assms Initialize True by (simp add: initialize_def s1_def)
    have "quietStep s s1" by (simp add: quietStep_refl s1_def)
    moreover have "quietStep s1 (sendCommand s1 ''uci'')"
      using assms(2) by (intro sendCommand_quiet) (simp add: s1_def)
    ultimately show ?thesis unfolding s' using quietStep_trans by blast
  qed
next
  case (Stdout d)
  then show ?thesis using assms handleLines_quiet by (simp add: handleStockfishOutput_def)
next
  case (TimerFire i)
  show ?thesis
  proof (cases "i < length (timers s) \<and> armed (timers s ! i)")
    case False
    then show ?thesis using assms TimerFire by (auto simp add: fireTimer_def quietStep_refl)
  next
    case True
    define s1 where "s1 = s\<lparr>timers := (timers s)[i := (timers s ! i)\<lparr>armed := False\<rparr>]\<rparr>"
    have s': "s' = settle (tpid (timers s ! i)) (Rejected Timeout) (sendCommand s1 ''stop'')"
      using assms TimerFire True by (simp add: fireTimer_def timeoutCallback_def s1_def)
    have "quietStep s s1" by (simp add: quietStep_refl s1_def)
    moreover have "quietStep s1 (sendCommand s1 ''stop'')"
      using assms(2) by (intro sendCommand_quiet) (simp add: s1_def)
    moreover have "quietStep (sendCommand s1 ''stop'') s'"
      unfolding s' by (simp add: quietStep_refl)
    ultimately show ?thesis using quietStep_trans by blast
  qed
next
  case (SendCommand c)
  then show ?thesis using assms sendCommand_quiet by auto
next
  case (SetSkillLevel l)
  define c where "c = ''setoption name Skill Level value '' @ showInt (max 0 (min 20 l))"
  have 1: "quietStep s (sendCommand s c)" using assms(2) by (rule sendCommand_quiet)
  have 2: "quietStep (sendCommand s c) (sendCommand (sendCommand s c) ''setoption name MultiPV value 1'')"
    using assms(2) by (intro sendCommand_quiet) simp
  have "s' = sendCommand s c \<or> s' = sendCommand (sendCommand s c) ''setoption name MultiPV value 1''"
    using assms(1) SetSkillLevel by (simp add: setSkillLevel_def Let_def c_def split: if_splits)
  then show ?thesis using 1 2 quietStep_trans by blast
next
  case Stop
  have "s' = s \<or> s' = sendCommand s ''stop''"
    using assms(1) Stop by (simp add: stop_def split: if_splits)
  then show ?thesis using assms(2) sendCommand_quiet quietStep_refl by blast
next
  case Quit
  show ?thesis
  proof (cases "stockfishProcess s")
    case None
    then show ?thesis using assms Quit by (simp add: quit_def quietStep_refl)
  next
    case (Some p)
    then have s': "s' = (sendCommand s ''quit'')\<lparr>stockfishProcess := None, isReady := False\<rparr>"
      using assms Quit by (simp add: quit_def)
    have "quietStep s (sendCommand s ''quit'')" using assms(2) by (rule sendCommand_quiet)
    moreover have "quietStep (sendCommand s ''quit'') s'"
      unfolding s' by (simp add: quietStep_refl)
    ultimately show ?thesis using quietStep_trans by blast
  qed
next
  case (Stderr d)
  then show ?thesis using assms by (auto simp add: onStderr_def intro!: quietStep_refl)
next
  case (Close code)
  then show ?thesis using assms by (auto simp add: onClose_def intro!: quietStep_refl)
next
  case (ProcError m)
  then show ?thesis using assms by (auto simp add: onError_def intro!: quietStep_refl)
next
  case (GetBestMove fen t)
  then show ?thesis using assms by (auto simp add: getBestMove_def intro!: quietStep_refl)
next
  case (EvaluatePosition fen d)
  then show ?thesis using assms by (auto simp add: evaluatePosition_def intro!: quietStep_refl)
qed

lemma run_quiet:
  "neverReady s es \<Longrightarrow> \<exists>s'. run s es = Some s' \<and> \<not> isReady s' \<and> quietStep s s'"
proof (induction es arbitrary: s)
  case Nil
  then show ?case by (simp add: quietStep_refl)
next
  case (Cons e es)
  then obtain s1 where 1: "step s e = Some s1" and 2: "neverReady s1 es" and 3: "\<not> isReady s"
    by (auto split: option.splits)
  have "\<not> isReady s1" using 2 by (cases es) auto
  then have "quietStep s s1" using 1 3 step_quiet by blast
  moreover obtain s' where "run s1 es = Some s'" "\<not> isReady s'" "quietStep s1 s'"
    using Cons.IH 2 by blast
  ultimately show ?case using 1 quietStep_trans by auto
qed

text \<open>
  C1, as the code has it. On a manager that holds a process handle and is not ready, a
  command other than \<^verbatim>\<open>uci\<close> and \<^verbatim>\<open>isready\<close> handed to \<^verbatim>\<open>sendCommand\<close> is appended to the
  pending queue and nothing else changes, so nothing is written. Along every run
  during which the manager is never ready, only handshake commands are written and the
  queue only grows at its tail. The first \<^verbatim>\<open>readyok\<close> line writes the queued commands to
  the process, each once and in arrival order, and leaves the queue empty; a \<^verbatim>\<open>readyok\<close>
  line received by a ready manager writes nothing. On a manager without a process
  handle a command is neither queued nor written.
\<close>

theorem queue_until_ready:
  "(stockfishProcess s = Some p \<and> \<not> isReady s \<and> c \<noteq> ''uci'' \<and> c \<noteq> ''isready'' \<longrightarrow>
      sendCommand s c = s\<lparr>pendingCommands := pendingCommands s @ [c]\<rparr>)
   \<and> (neverReady s es \<longrightarrow>
        (\<exists>s' ws qs. run s es = Some s' \<and> stdin s' = stdin s @ ws \<and> list_all handshakeWrite ws
           \<and> pendingCommands s' = pendingCommands s @ qs))
   \<and> (stockfishProcess s = Some p \<and> \<not> isReady s \<longrightarrow>
        (\<exists>s'. handleLine s ''readyok'' = Some s' \<and> isReady s' \<and> pendingCommands s' = []
           \<and> stdin s' = stdin s @ map (\<lambda>c. (p, c @ [nl])) (pendingCommands s)))
   \<and> (isReady s \<longrightarrow>
        (\<exists>s'. handleLine s ''readyok'' = Some s' \<and> stdin s' = stdin s
           \<and> pendingCommands s' = pendingCommands s))
   \<and> (stockfishProcess s = None \<longrightarrow>
        pendingCommands (sendCommand s c) = pendingCommands s
        \<and> stdin (sendCommand s c) = stdin s)"
proof (intro conjI impI)
  assume "stockfishProcess s = None"
  then show "pendingCommands (sendCommand s c) = pendingCommands s"
    by (simp add: sendCommand_def)
next
  assume "stockfishProcess s = None"
  then show "stdin (sendCommand s c) = stdin s"
    by (simp add: sendCommand_def)
next
  assume "stockfishProcess s = Some p \<and> \<not> isReady s \<and> c \<noteq> ''uci'' \<and> c \<noteq> ''isready''"
  then show "sendCommand s c = s\<lparr>pendingCommands := pendingCommands s @ [c]\<rparr>"
    by (simp add: sendCommand_queued)
next
  assume "neverReady s es"
  then obtain s' where "run s es = Some s'" "quietStep s s'"
    using run_quiet by blast
  then show "\<exists>s' ws qs. run s es = Some s' \<and> stdin s' = stdin s @ ws \<and> list_all handshakeWrite ws
           \<and> pendingCommands s' = pendingCommands s @ qs"
    unfolding quietStep_def by blast
next
  assume "stockfishProcess s = Some p \<and> \<not> isReady s"
  then show "\<exists>s'. handleLine s ''readyok'' = Some s' \<and> isReady s' \<and> pendingCommands s' = []
           \<and> stdin s' = stdin s @ map (\<lambda>c. (p, c @ [nl])) (pendingCommands s)"
    by (simp add: readyok_first)
next
  assume "isReady s"
  then show "\<exists>s'. handleLine s ''readyok'' = Some s' \<and> stdin s' = stdin s
           \<and> pendingCommands s' = pendingCommands s"
    by (simp add: readyok_again)
qed

theorem queue_until_ready_witness:
  "sendCommand (initialize constructor ''stockfish'' True) ''stop''
     = (initialize constructor ''stockfish'' True)
         \<lparr>pendingCommands := pendingCommands (initialize constructor ''stockfish'' True) @ [''stop'']\<rparr>
   \<and> (\<exists>s' ws qs. run (initialize constructor ''stockfish'' True) [SetSkillLevel 25, Stdout ''uciok'', Stop] = Some s'
          \<and> stdin s' = stdin (initialize constructor ''stockfish'' True) @ ws
          \<and> list_all handshakeWrite ws
          \<and> pendingCommands s' = pendingCommands (initialize constructor ''stockfish'' True) @ qs)
   \<and> (\<exists>s'. handleLine (setSkillLevel (initialize constructor ''stockfish'' True) 25) ''readyok'' = Some s'
          \<and> isReady s' \<and> pendingCommands s' = []
          \<and> stdin s' = [(0, ''uci'' @ [nl]), (0, ''setoption name Skill Level value 20'' @ [nl])])
   \<and> (\<exists>s'. handleLine (constructor\<lparr>isReady := True\<rparr>) ''readyok'' = Some s' \<and> stdin s' = []
          \<and> pendingCommands s' = [])
   \<and> pendingCommands (sendCommand constructor ''stop'') = []
   \<and> stdin (sendCommand constructor ''stop'') = []"
proof -
  let ?s = "initialize constructor ''stockfish'' True"
  let ?q = "setSkillLevel ?s 25"
  have s: "stockfishProcess ?s = Some 0" "\<not> isReady ?s"
    by (simp_all add: initialize_def constructor_def)
  have n: "neverReady ?s [SetSkillLevel 25, Stdout ''uciok'', Stop]"
    by code_simp
  have q: "stockfishProcess ?q = Some 0" "\<not> isReady ?q" "stdin ?q = [(0, ''uci'' @ [nl])]"
      "pendingCommands ?q = [''setoption name Skill Level value 20'']"
    by code_simp+
  have r: "isReady (constructor\<lparr>isReady := True\<rparr>)" "stdin (constructor\<lparr>isReady := True\<rparr>) = []"
     "pendingCommands (constructor\<lparr>isReady := True\<rparr>) = []"
    by (simp_all add: constructor_def)
  have c: "stockfishProcess constructor = None" "pendingCommands constructor = []"
     "stdin constructor = []"
    by (simp_all add: constructor_def)
  show ?thesis
    using queue_until_ready [of ?s 0 "''stop''" "[SetSkillLevel 25, Stdout ''uciok'', Stop]"]
      queue_until_ready [of ?q 0 "''stop''" "[]"]
      queue_until_ready [of "constructor\<lparr>isReady := True\<rparr>" 0 "''stop''" "[]"]
      queue_until_ready [of constructor 0 "''stop''" "[]"]
      s n q r c
    by simp
qed

text \<open>
  A manager whose engine binary was not found holds no process handle and is not
  ready. A skill-level change and a \<^verbatim>\<open>stop\<close> handed to it are neither appended to the
  pending queue nor written: the queue and the input of the process stay empty.
\<close>

theorem queue_without_process_counterexample:
  "map_option (\<lambda>s. (isReady s, stockfishProcess s, pendingCommands s, stdin s, emitted s))
     (run constructor [Initialize ''stockfish'' False, SetSkillLevel 5, SendCommand ''stop''])
   = Some (False, None, [], [], [ErrorN ''Stockfish binary not found at: stockfish''])"
  by code_simp

section \<open>Readiness is reached once\<close>

text \<open>
  C2. A \<^verbatim>\<open>readyok\<close> line received while the manager is not ready sets readiness, emits
  one ready notification and flushes the queue (it is empty afterwards; its commands
  went to the process when there is a handle). A \<^verbatim>\<open>readyok\<close> line received while the
  manager is ready changes nothing but the console log: no notification, no flush.
  Along a run that contains neither a process exit nor \<^verbatim>\<open>quit()\<close>, readiness goes from
  false to true at most once.
\<close>

theorem readiness_once:
  "(\<not> isReady s \<longrightarrow>
      (\<exists>s'. handleLine s ''readyok'' = Some s' \<and> isReady s' \<and> emitted s' = emitted s @ [Ready]
         \<and> pendingCommands s' = []
         \<and> stdin s' = stdin s @
              (case stockfishProcess s of
                 None \<Rightarrow> []
               | Some p \<Rightarrow> map (\<lambda>c. (p, c @ [nl])) (pendingCommands s))))
   \<and> (isReady s \<longrightarrow>
        handleLine s ''readyok'' = Some (s\<lparr>console := console s @ [LogStockfish ''readyok'']\<rparr>))
   \<and> ((\<forall>e\<in>set es. \<not> endsLifetime e) \<longrightarrow> risingEdges s es \<le> 1)"
  using risingEdges_le_1 [of es s] by (simp add: readyok_first readyok_again)

theorem readiness_once_witness:
  "(\<exists>s'. handleLine (setSkillLevel (initialize constructor ''stockfish'' True) 25) ''readyok'' = Some s'
      \<and> isReady s' \<and> emitted s' = [Ready] \<and> pendingCommands s' = []
      \<and> stdin s' = [(0, ''uci'' @ [nl]), (0, ''setoption name Skill Level value 20'' @ [nl])])
   \<and> handleLine (constructor\<lparr>isReady := True\<rparr>) ''readyok''
        = Some (constructor\<lparr>isReady := True, console := [LogStockfish ''readyok'']\<rparr>)
   \<and> risingEdges (initialize constructor ''stockfish'' True)
        [Stdout ''uciok'', Stdout ''readyok'', Stop, Stdout ''readyok''] \<le> 1"
proof -
  let ?s = "initialize constructor ''stockfish'' True"
  let ?q = "setSkillLevel ?s 25"
  have q: "stockfishProcess ?q = Some 0" "\<not> isReady ?q" "stdin ?q = [(0, ''uci'' @ [nl])]"
      "pendingCommands ?q = [''setoption name Skill Level value 20'']" "emitted ?q = []"
    by code_simp+
  have r: "isReady (constructor\<lparr>isReady := True\<rparr>)" "console (constructor\<lparr>isReady := True\<rparr>) = []"
    by (simp_all add: constructor_def)
  have e: "\<forall>e\<in>set [Stdout ''uciok'', Stdout ''readyok'', Stop, Stdout ''readyok'']. \<not> endsLifetime e"
    by simp
  show ?thesis
    using readiness_once [of ?q "[]"]
      readiness_once [of "constructor\<lparr>isReady := True\<rparr>" "[]"]
      readiness_once [of ?s "[Stdout ''uciok'', Stdout ''readyok'', Stop, Stdout ''readyok'']"]
      q r e
    by simp
qed

section \<open>Requests before readiness\<close>

text \<open>
  C5. Called while the manager is not ready, \<^verbatim>\<open>getBestMove\<close> and \<^verbatim>\<open>evaluatePosition\<close> only
  create a promise that is already rejected with the not-ready error: nothing is
  written to the process, nothing is queued, no timer is armed and no listener is
  registered.
\<close>

theorem not_ready_rejects:
  "\<not> isReady s \<Longrightarrow>
     getBestMove s fen t
       = s\<lparr>requests := requests s @ [\<lparr>outcome = Rejected EngineNotReady, finalEvaluation = None\<rparr>]\<rparr>
     \<and> evaluatePosition s fen d
       = s\<lparr>requests := requests s @ [\<lparr>outcome = Rejected EngineNotReady, finalEvaluation = None\<rparr>]\<rparr>
     \<and> outcome (requests (getBestMove s fen t) ! length (requests s)) = Rejected EngineNotReady
     \<and> outcome (requests (evaluatePosition s fen d) ! length (requests s)) = Rejected EngineNotReady
     \<and> stdin (getBestMove s fen t) = stdin s \<and> stdin (evaluatePosition s fen d) = stdin s
     \<and> pendingCommands (getBestMove s fen t) = pendingCommands s
     \<and> pendingCommands (evaluatePosition s fen d) = pendingCommands s"
  by (simp add: getBestMove_def evaluatePosition_def)

theorem not_ready_rejects_witness:
  "outcome (requests (getBestMove (initialize constructor ''stockfish'' True) ''startpos'' 1000) ! 0)
     = Rejected EngineNotReady
   \<and> outcome (requests (evaluatePosition (initialize constructor ''stockfish'' True) ''startpos'' 15) ! 0)
     = Rejected EngineNotReady
   \<and> stdin (getBestMove (initialize constructor ''stockfish'' True) ''startpos'' 1000) = [(0, ''uci'' @ [nl])]
   \<and> stdin (evaluatePosition (initialize constructor ''stockfish'' True) ''startpos'' 15) = [(0, ''uci'' @ [nl])]
   \<and> pendingCommands (getBestMove (initialize constructor ''stockfish'' True) ''startpos'' 1000) = []
   \<and> pendingCommands (evaluatePosition (initialize constructor ''stockfish'' True) ''startpos'' 15) = []"
proof -
  let ?s = "initialize constructor ''stockfish'' True"
  have s: "\<not> isReady ?s" "requests ?s = []" "stdin ?s = [(0, ''uci'' @ [nl])]" "pendingCommands ?s = []"
    by (simp_all add: initialize_def constructor_def sendCommand_def)
  show ?thesis
    using not_ready_rejects [of ?s "''startpos''" 1000 15] s by simp
qed

section \<open>Process exit\<close>

text \<open>
  C7, as the code has it. When the process exits, the manager sets readiness to false
  and logs the exit code on the console. It emits nothing: the notifications delivered
  to subscribers are the same before and after, and no other field changes.
\<close>

theorem close_sets_not_ready:
  "step s (Close code) = Some (onClose s code)
   \<and> onClose s code = s\<lparr>console := console s @ [LogClosed code], isReady := False\<rparr>
   \<and> \<not> isReady (onClose s code)
   \<and> emitted (onClose s code) = emitted s
   \<and> console (onClose s code) = console s @ [LogClosed code]"
  by (simp add: onClose_def)

text \<open>
  A process that is started and exits with code 1: the manager is not ready, the exit
  was logged, and no notification at all has been emitted.
\<close>

theorem close_notification_counterexample:
  "map_option (\<lambda>s. (isReady s, emitted s, console s))
     (run constructor [Initialize ''stockfish'' True, Close (Some 1)])
   = Some (False, [], [LogStarting ''stockfish'', LogSending ''uci'', LogClosed (Some 1)])"
  by (simp add: initialize_def constructor_def sendCommand_def onClose_def)

section \<open>Quitting\<close>

text \<open>
  C8, at a manager whose process was started and has not yet confirmed readiness.
  \<^verbatim>\<open>quit()\<close> releases the handle and leaves the manager not ready, but \<^verbatim>\<open>quit\<close> is not
  written to the process: it is appended to the pending queue. A later \<^verbatim>\<open>readyok\<close>
  empties the queue without writing it, so the only line the process ever received is
  \<^verbatim>\<open>uci\<close>.
\<close>

theorem quit_before_ready_not_written:
  "stdin (initialize constructor ''stockfish'' True) = [(0, ''uci'' @ [nl])]
   \<and> stockfishProcess (initialize constructor ''stockfish'' True) = Some 0
   \<and> stdin (quit (initialize constructor ''stockfish'' True)) = [(0, ''uci'' @ [nl])]
   \<and> pendingCommands (quit (initialize constructor ''stockfish'' True)) = [''quit'']
   \<and> stockfishProcess (quit (initialize constructor ''stockfish'' True)) = None
   \<and> isReady (quit (initialize constructor ''stockfish'' True)) = False
   \<and> map_option (\<lambda>s. (stdin s, pendingCommands s))
        (handleLine (quit (initialize constructor ''stockfish'' True)) ''readyok'')
      = Some ([(0, ''uci'' @ [nl])], [])"
  by (simp add: initialize_def constructor_def sendCommand_def quit_def handleLine_def
        processPendingCommands_no_process)

section \<open>Info lines\<close>

lemma emitEvaluation_emitted:
  "emitted (emitEvaluation s a) = emitted s @ [EvaluationN a (heap s a)]"
  using emitEvaluation_shape [of s a] by auto

lemma handleInfoLine_silent:
  "currentEvaluation (scoreUpdate s line) = None
     \<or> \<not> (matched (matchNumber ''depth '' False line) \<or> matched (matchNumber ''nodes '' False line))
   \<Longrightarrow> handleInfoLine s line = scoreUpdate s line"
  by (auto simp add: handleInfoLine_alt split: option.splits)

lemma handleInfoLine_emits:
  "currentEvaluation (scoreUpdate s line) = Some a \<Longrightarrow>
   matched (matchNumber ''depth '' False line) \<or> matched (matchNumber ''nodes '' False line) \<Longrightarrow>
   handleInfoLine s line = emitEvaluation (fieldsUpdate (scoreUpdate s line) line a) a"
  by (simp add: handleInfoLine_alt)

lemma fieldsUpdate_frame [simp]:
  "currentEvaluation (fieldsUpdate s line a) = currentEvaluation s"
  "nextAddr (fieldsUpdate s line a) = nextAddr s"
  "emitted (fieldsUpdate s line a) = emitted s"
  "requests (fieldsUpdate s line a) = requests s"
  "evaluationListeners (fieldsUpdate s line a) = evaluationListeners s"
  "bestmoveListeners (fieldsUpdate s line a) = bestmoveListeners s"
  "timers (fieldsUpdate s line a) = timers s"
  by (simp_all add: fieldsUpdate_def)

lemma fieldsUpdate_heap:
  "heap (fieldsUpdate s line a) =
     (heap s)(a := (heap s a)\<lparr>depth := optField (matchNumber ''depth '' False line),
                               nodes := optField (matchNumber ''nodes '' False line),
                               time := optField (matchNumber ''time '' False line)\<rparr>)"
  by (simp add: fieldsUpdate_def)

text \<open>
  C3, as the code has it. A line without score information never installs a new
  Evaluation object and never changes the kind or value of any object. When there is
  no current Evaluation, or the line has neither a depth nor a nodes token, processing
  it changes nothing and emits nothing. When there is a current Evaluation and the
  line has a depth or a nodes token, the depth, nodes and time fields of the current
  Evaluation are overwritten from the line and one evaluation notification is emitted.
\<close>

theorem no_score_line:
  "\<not> scoreBearing line \<Longrightarrow>
     currentEvaluation (handleInfoLine s line) = currentEvaluation s
     \<and> nextAddr (handleInfoLine s line) = nextAddr s
     \<and> (\<forall>b. etype (heap (handleInfoLine s line) b) = etype (heap s b)
              \<and> evalue (heap (handleInfoLine s line) b) = evalue (heap s b))
     \<and> (currentEvaluation s = None
          \<or> \<not> (matched (matchNumber ''depth '' False line) \<or> matched (matchNumber ''nodes '' False line))
         \<longrightarrow> handleInfoLine s line = s)
     \<and> (\<forall>a. currentEvaluation s = Some a
            \<and> (matched (matchNumber ''depth '' False line) \<or> matched (matchNumber ''nodes '' False line))
         \<longrightarrow> emitted (handleInfoLine s line)
                = emitted s @ [EvaluationN a (heap (handleInfoLine s line) a)]
             \<and> heap (handleInfoLine s line)
                = (heap s)(a := (heap s a)
                     \<lparr>depth := (case matchNumber ''depth '' False line of None \<Rightarrow> Null | Some n \<Rightarrow> Num n),
                      nodes := (case matchNumber ''nodes '' False line of None \<Rightarrow> Null | Some n \<Rightarrow> Num n),
                      time := (case matchNumber ''time '' False line of None \<Rightarrow> Null | Some n \<Rightarrow> Num n)\<rparr>))"
proof -
  assume ns: "\<not> scoreBearing line"
  then have su: "scoreUpdate s line = s" by (rule scoreUpdate_no_score)
  let ?m = "matched (matchNumber ''depth '' False line) \<or> matched (matchNumber ''nodes '' False line)"
  show ?thesis
  proof (cases "currentEvaluation s = None \<or> \<not> ?m")
    case True
    then have "handleInfoLine s line = s"
      using handleInfoLine_silent [of s line] su by auto
    then show ?thesis using True by auto
  next
    case False
    then obtain a where a: "currentEvaluation s = Some a" and m: "?m" by auto
    have h: "handleInfoLine s line = emitEvaluation (fieldsUpdate s line a) a"
      using handleInfoLine_emits [of s line a] su a m by simp
    show ?thesis
      using a m unfolding h
      by (simp add: emitEvaluation_emitted fieldsUpdate_heap optField_def)
  qed
qed


theorem no_score_line_witness:
  "currentEvaluation
     (handleInfoLine (handleInfoLine constructor ''info depth 12 score cp 34 nodes 1000 time 50'')
        ''info depth 5 nodes 200'') = Some 0
   \<and> emitted
     (handleInfoLine (handleInfoLine constructor ''info depth 12 score cp 34 nodes 1000 time 50'')
        ''info depth 5 nodes 200'')
     = [EvaluationN 0 \<lparr>etype = ''centipawn'', evalue = 34, depth = Num 12, nodes = Num 1000,
                        time = Num 50\<rparr>,
        EvaluationN 0 \<lparr>etype = ''centipawn'', evalue = 34, depth = Num 5, nodes = Num 200,
                        time = Null\<rparr>]
   \<and> handleInfoLine constructor ''info depth 5 nodes 200'' = constructor
   \<and> handleInfoLine (handleInfoLine constructor ''info depth 12 score cp 34 nodes 1000 time 50'')
        ''info string hello''
     = handleInfoLine constructor ''info depth 12 score cp 34 nodes 1000 time 50''"
proof -
  let ?s = "handleInfoLine constructor ''info depth 12 score cp 34 nodes 1000 time 50''"
  have l: "\<not> scoreBearing ''info depth 5 nodes 200''" "\<not> scoreBearing ''info string hello''"
      "matched (matchNumber ''depth '' False ''info depth 5 nodes 200'')"
      "matchNumber ''depth '' False ''info depth 5 nodes 200'' = Some 5"
      "matchNumber ''nodes '' False ''info depth 5 nodes 200'' = Some 200"
      "matchNumber ''time '' False ''info depth 5 nodes 200'' = None"
      "\<not> matched (matchNumber ''depth '' False ''info string hello'')"
      "\<not> matched (matchNumber ''nodes '' False ''info string hello'')"
    by code_simp+
  have s: "currentEvaluation ?s = Some 0"
      "emitted ?s = [EvaluationN 0 \<lparr>etype = ''centipawn'', evalue = 34, depth = Num 12,
                        nodes = Num 1000, time = Num 50\<rparr>]"
      "heap ?s 0 = \<lparr>etype = ''centipawn'', evalue = 34, depth = Num 12,
                        nodes = Num 1000, time = Num 50\<rparr>"
    by code_simp+
  have c: "currentEvaluation constructor = None" by (simp add: constructor_def)
  show ?thesis
    using no_score_line [of "''info depth 5 nodes 200''" ?s]
      no_score_line [of "''info depth 5 nodes 200''" constructor]
      no_score_line [of "''info string hello''" ?s]
      l s c
    by simp
qed

text \<open>
  The line \<^verbatim>\<open>info depth 5 nodes 200\<close> has no score. Processed after a line that recorded
  an Evaluation, it changes that Evaluation (depth 12 to 5, nodes 1000 to 200, time 50
  to null) and a second evaluation notification is emitted.
\<close>

theorem no_score_line_counterexample:
  "\<not> scoreBearing ''info depth 5 nodes 200''
   \<and> map_option (\<lambda>s. (emitted s, map_option (heap s) (currentEvaluation s)))
        (run constructor [Stdout ''info depth 12 score cp 34 nodes 1000 time 50''])
     = Some ([EvaluationN 0 \<lparr>etype = ''centipawn'', evalue = 34, depth = Num 12, nodes = Num 1000,
                                time = Num 50\<rparr>],
             Some \<lparr>etype = ''centipawn'', evalue = 34, depth = Num 12, nodes = Num 1000,
                     time = Num 50\<rparr>)
   \<and> map_option (\<lambda>s. (emitted s, map_option (heap s) (currentEvaluation s)))
        (run constructor [Stdout ''info depth 12 score cp 34 nodes 1000 time 50'',
                          Stdout ''info depth 5 nodes 200''])
     = Some ([EvaluationN 0 \<lparr>etype = ''centipawn'', evalue = 34, depth = Num 12, nodes = Num 1000,
                                time = Num 50\<rparr>,
              EvaluationN 0 \<lparr>etype = ''centipawn'', evalue = 34, depth = Num 5, nodes = Num 200,
                                time = Null\<rparr>],
             Some \<lparr>etype = ''centipawn'', evalue = 34, depth = Num 5, nodes = Num 200,
                     time = Null\<rparr>)"
  by code_simp

lemma scoreUpdate_reference:
  "currentEvaluation (scoreUpdate s line) = currentEvaluation s
   \<or> currentEvaluation (scoreUpdate s line) = Some (nextAddr s)"
  by (simp add: scoreUpdate_def setCurrentEvaluation_def split: option.splits)

lemma scoreUpdate_installs:
  assumes "installsScore line"
  shows "currentEvaluation (scoreUpdate s line) = Some (nextAddr s)"
    and "nextAddr (scoreUpdate s line) = Suc (nextAddr s)"
    and "b \<noteq> nextAddr s \<Longrightarrow> heap (scoreUpdate s line) b = heap s b"
    and "depth (heap (scoreUpdate s line) (nextAddr s)) = Undefined"
    and "nodes (heap (scoreUpdate s line) (nextAddr s)) = Undefined"
    and "time (heap (scoreUpdate s line) (nextAddr s)) = Undefined"
  using assms
  by (auto simp add: installsScore_def scoreUpdate_def setCurrentEvaluation_def matched_def
        split: if_splits option.splits)

lemma scoreUpdate_not_installs:
  "\<not> installsScore line \<Longrightarrow> scoreUpdate s line = s"
  by (auto simp add: installsScore_def scoreUpdate_def matched_def split: if_splits option.splits)

lemma installsScore_scoreBearing:
  "installsScore line \<Longrightarrow> scoreBearing line"
  by (auto simp add: installsScore_def scoreBearing_def split: if_splits)

lemma handleInfoLine_reference:
  "currentEvaluation (handleInfoLine s line) = currentEvaluation (scoreUpdate s line)"
  by (simp add: handleInfoLine_alt split: option.splits)

lemma handleInfoLine_nextAddr:
  "nextAddr (handleInfoLine s line) = nextAddr (scoreUpdate s line)"
  by (simp add: handleInfoLine_alt split: option.splits)

lemma handleInfoLine_allocated:
  "allocated s \<Longrightarrow> allocated (handleInfoLine s line)"
  unfolding allocated_def handleInfoLine_reference handleInfoLine_nextAddr
  by (cases "installsScore line")
     (simp_all add: scoreUpdate_installs scoreUpdate_not_installs split: option.splits)

lemma allocated_frame:
  "allocated s \<Longrightarrow> currentEvaluation s' = currentEvaluation s \<Longrightarrow> nextAddr s' = nextAddr s
   \<Longrightarrow> allocated s'"
  by (simp add: allocated_def split: option.splits)

lemma handleLine_allocated:
  assumes "allocated s" "handleLine s line = Some s'"
  shows "allocated s'"
proof -
  let ?s0 = "s\<lparr>console := console s @ [LogStockfish line]\<rparr>"
  have a0: "allocated ?s0" using assms(1) by (simp add: allocated_def split: option.splits)
  consider (uciok) "line = ''uciok''" | (readyok) "line = ''readyok''"
    | (bm) "line \<noteq> ''uciok''" "line \<noteq> ''readyok''" "startsWith line ''bestmove''"
    | (info) "line \<noteq> ''uciok''" "line \<noteq> ''readyok''" "\<not> startsWith line ''bestmove''" "startsWith line ''info''"
    | (other) "line \<noteq> ''uciok''" "line \<noteq> ''readyok''" "\<not> startsWith line ''bestmove''" "\<not> startsWith line ''info''"
    by blast
  then show ?thesis
  proof cases
    case uciok
    then have "s' = sendCommand ?s0 ''isready''" using assms(2) by (simp add: handleLine_def)
    then show ?thesis using a0 by (intro allocated_frame [OF a0]) simp_all
  next
    case readyok
    then show ?thesis using assms readyok_first [of s] readyok_again [of s]
      by (cases "isReady s") (auto simp add: allocated_def split: option.splits)
  next
    case bm
    then have "s' = handleBestMove ?s0 line" using assms(2) by (simp add: handleLine_def)
    then show ?thesis by (intro allocated_frame [OF a0]) simp_all
  next
    case info
    then have "s' = handleInfoLine ?s0 line" using assms(2) by (simp add: handleLine_def)
    then show ?thesis using a0 by (simp add: handleInfoLine_allocated)
  next
    case other
    then have "s' = ?s0" using assms(2) by (simp add: handleLine_def)
    then show ?thesis using a0 by simp
  qed
qed

lemma handleLines_allocated:
  "allocated s \<Longrightarrow> handleLines s ls = Some s' \<Longrightarrow> allocated s'"
  by (induction ls arbitrary: s) (auto split: option.splits dest: handleLine_allocated)

lemma step_allocated:
  assumes "allocated s" "step s e = Some s'"
  shows "allocated s'"
proof (cases e)
  case (Stdout d)
  then show ?thesis using assms handleLines_allocated
    by (auto simp add: handleStockfishOutput_def)
qed (use assms in \<open>auto simp add: allocated_def initialize_def onStderr_def onClose_def onError_def
       fireTimer_def timeoutCallback_def getBestMove_def evaluatePosition_def setSkillLevel_def
       stop_def quit_def Let_def split: if_splits option.splits\<close>)

lemma run_allocated:
  "allocated s \<Longrightarrow> run s es = Some s' \<Longrightarrow> allocated s'"
  by (induction es arbitrary: s) (auto split: option.splits dest: step_allocated)

lemma reachable_allocated:
  "run constructor es = Some s \<Longrightarrow> allocated s"
proof -
  assume r: "run constructor es = Some s"
  have "allocated constructor" by (simp add: allocated_def constructor_def)
  then show "allocated s" using r by (rule run_allocated)
qed

text \<open>
  C9, as the code has it. Whenever processing an info line emits an evaluation
  notification, the emitted object is the current Evaluation object itself, and its
  depth, nodes and time fields have just been overwritten from that line: the number of
  the token when the line has it, null when it has not, whatever the field held before.
  When the line makes the code record a score, that object is a newly created one: it
  did not exist before the line, so it is not the object that was current before, in
  every state where the current Evaluation is an object created earlier, which is every
  reachable state. Otherwise, and in particular when the line carries no score, it is
  the object that was current before the line, with its kind and value untouched, and
  no object is created. In both cases no other object is modified.
\<close>

theorem evaluation_update_overwrites:
  "emitted (handleInfoLine s line) \<noteq> emitted s \<Longrightarrow>
     (\<exists>a. currentEvaluation (handleInfoLine s line) = Some a
        \<and> emitted (handleInfoLine s line)
            = emitted s @ [EvaluationN a (heap (handleInfoLine s line) a)]
        \<and> depth (heap (handleInfoLine s line) a)
            = (case matchNumber ''depth '' False line of None \<Rightarrow> Null | Some n \<Rightarrow> Num n)
        \<and> nodes (heap (handleInfoLine s line) a)
            = (case matchNumber ''nodes '' False line of None \<Rightarrow> Null | Some n \<Rightarrow> Num n)
        \<and> time (heap (handleInfoLine s line) a)
            = (case matchNumber ''time '' False line of None \<Rightarrow> Null | Some n \<Rightarrow> Num n)
        \<and> (currentEvaluation s = Some a \<or> a = nextAddr s)
        \<and> (\<not> scoreBearing line \<longrightarrow>
              currentEvaluation s = Some a
              \<and> etype (heap (handleInfoLine s line) a) = etype (heap s a)
              \<and> evalue (heap (handleInfoLine s line) a) = evalue (heap s a))
        \<and> (\<not> installsScore line \<longrightarrow>
              currentEvaluation s = Some a
              \<and> nextAddr (handleInfoLine s line) = nextAddr s
              \<and> etype (heap (handleInfoLine s line) a) = etype (heap s a)
              \<and> evalue (heap (handleInfoLine s line) a) = evalue (heap s a))
        \<and> (installsScore line \<longrightarrow>
              a = nextAddr s
              \<and> nextAddr (handleInfoLine s line) = Suc (nextAddr s)
              \<and> (allocated s \<longrightarrow> currentEvaluation s \<noteq> Some a))
        \<and> (\<forall>b. b \<noteq> a \<longrightarrow> heap (handleInfoLine s line) b = heap s b))"
proof -
  assume e: "emitted (handleInfoLine s line) \<noteq> emitted s"
  define s1 where "s1 = scoreUpdate s line"
  have em: "emitted s1 = emitted s" by (simp add: s1_def)
  have "handleInfoLine s line \<noteq> s1" using e em by auto
  then obtain a where a: "currentEvaluation s1 = Some a"
    and h: "handleInfoLine s line = emitEvaluation (fieldsUpdate s1 line a) a"
    using handleInfoLine_silent [of s line] handleInfoLine_emits [of s line]
    unfolding s1_def by (cases "currentEvaluation (scoreUpdate s line)") auto
  have ns: "s1 = s" if "\<not> scoreBearing line"
    using that unfolding s1_def by (rule scoreUpdate_no_score)
  have ni: "s1 = s" if "\<not> installsScore line"
    using that unfolding s1_def by (rule scoreUpdate_not_installs)
  have fr: "currentEvaluation s = Some a \<or> a = nextAddr s"
    using a scoreUpdate_reference [of s line] unfolding s1_def by auto
  have i1: "a = nextAddr s" and i2: "nextAddr s1 = Suc (nextAddr s)"
    and i3: "\<And>b. b \<noteq> a \<Longrightarrow> heap s1 b = heap s b" if "installsScore line"
    using a scoreUpdate_installs [OF that, where s = s] unfolding s1_def by auto
  have i4: "currentEvaluation s \<noteq> Some a" if "installsScore line" "allocated s"
    using i1 [OF that(1)] that(2) by (auto simp add: allocated_def)
  have hp: "heap s1 b = heap s b" if "b \<noteq> a" for b
    using that i3 ni by (cases "installsScore line") auto
  show ?thesis
    unfolding h using a em ns ni fr i1 i2 i4 hp
    by (auto simp add: emitEvaluation_emitted fieldsUpdate_heap optField_def)
qed

theorem evaluation_update_overwrites_witness:
  "(\<exists>a. currentEvaluation
          (handleInfoLine (handleInfoLine constructor ''info depth 12 score cp 34 nodes 1000 time 50'')
             ''info nodes 200'') = Some a
      \<and> a = 0
      \<and> time (heap (handleInfoLine constructor ''info depth 12 score cp 34 nodes 1000 time 50'') a) = Num 50
      \<and> depth (heap (handleInfoLine constructor ''info depth 12 score cp 34 nodes 1000 time 50'') a) = Num 12
      \<and> depth (heap
          (handleInfoLine (handleInfoLine constructor ''info depth 12 score cp 34 nodes 1000 time 50'')
             ''info nodes 200'') a) = Null
      \<and> nodes (heap
          (handleInfoLine (handleInfoLine constructor ''info depth 12 score cp 34 nodes 1000 time 50'')
             ''info nodes 200'') a) = Num 200
      \<and> time (heap
          (handleInfoLine (handleInfoLine constructor ''info depth 12 score cp 34 nodes 1000 time 50'')
             ''info nodes 200'') a) = Null
      \<and> evalue (heap
          (handleInfoLine (handleInfoLine constructor ''info depth 12 score cp 34 nodes 1000 time 50'')
             ''info nodes 200'') a) = 34)
   \<and> (\<exists>a. currentEvaluation
          (handleInfoLine (handleInfoLine constructor ''info depth 12 score cp 34 nodes 1000 time 50'')
             ''info depth 13 score cp 20 nodes 2000'') = Some a
      \<and> a = 1
      \<and> currentEvaluation (handleInfoLine constructor ''info depth 12 score cp 34 nodes 1000 time 50'')
          = Some 0
      \<and> depth (heap
          (handleInfoLine (handleInfoLine constructor ''info depth 12 score cp 34 nodes 1000 time 50'')
             ''info depth 13 score cp 20 nodes 2000'') a) = Num 13
      \<and> time (heap
          (handleInfoLine (handleInfoLine constructor ''info depth 12 score cp 34 nodes 1000 time 50'')
             ''info depth 13 score cp 20 nodes 2000'') a) = Null
      \<and> heap
          (handleInfoLine (handleInfoLine constructor ''info depth 12 score cp 34 nodes 1000 time 50'')
             ''info depth 13 score cp 20 nodes 2000'') 0
          = \<lparr>etype = ''centipawn'', evalue = 34, depth = Num 12, nodes = Num 1000, time = Num 50\<rparr>)
   \<and> (\<exists>a. currentEvaluation
          (handleInfoLine (handleInfoLine constructor ''info depth 12 score cp 34 nodes 1000 time 50'')
             ''info string cp x score mate 3 depth 2 nodes 4'') = Some a
      \<and> a = 0
      \<and> scoreBearing ''info string cp x score mate 3 depth 2 nodes 4''
      \<and> depth (heap
          (handleInfoLine (handleInfoLine constructor ''info depth 12 score cp 34 nodes 1000 time 50'')
             ''info string cp x score mate 3 depth 2 nodes 4'') a) = Num 2
      \<and> evalue (heap
          (handleInfoLine (handleInfoLine constructor ''info depth 12 score cp 34 nodes 1000 time 50'')
             ''info string cp x score mate 3 depth 2 nodes 4'') a) = 34)"
proof -
  let ?s = "handleInfoLine constructor ''info depth 12 score cp 34 nodes 1000 time 50''"
  have l: "\<not> scoreBearing ''info nodes 200''"
      "matchNumber ''depth '' False ''info nodes 200'' = None"
      "matchNumber ''nodes '' False ''info nodes 200'' = Some 200"
      "matchNumber ''time '' False ''info nodes 200'' = None"
    by code_simp+
  have s: "currentEvaluation ?s = Some 0"
      "heap ?s 0 = \<lparr>etype = ''centipawn'', evalue = 34, depth = Num 12,
                        nodes = Num 1000, time = Num 50\<rparr>"
    by code_simp+
  have e: "emitted (handleInfoLine ?s ''info nodes 200'') \<noteq> emitted ?s"
    by code_simp
  have W: "\<exists>a. currentEvaluation (handleInfoLine ?s ''info nodes 200'') = Some a
      \<and> a = 0
      \<and> time (heap ?s a) = Num 50
      \<and> depth (heap ?s a) = Num 12
      \<and> depth (heap (handleInfoLine ?s ''info nodes 200'') a) = Null
      \<and> nodes (heap (handleInfoLine ?s ''info nodes 200'') a) = Num 200
      \<and> time (heap (handleInfoLine ?s ''info nodes 200'') a) = Null
      \<and> evalue (heap (handleInfoLine ?s ''info nodes 200'') a) = 34"
    using evaluation_update_overwrites [OF e] l s by auto
  let ?l2 = "''info depth 13 score cp 20 nodes 2000''"
  let ?l3 = "''info string cp x score mate 3 depth 2 nodes 4''"
  have s2: "currentEvaluation ?s = Some 0" "nextAddr ?s = 1" "allocated ?s"
      "heap ?s 0 = \<lparr>etype = ''centipawn'', evalue = 34, depth = Num 12,
                        nodes = Num 1000, time = Num 50\<rparr>"
    by code_simp+
  have l2: "installsScore ?l2"
      "matchNumber ''depth '' False ?l2 = Some 13"
      "matchNumber ''time '' False ?l2 = None"
    by code_simp+
  have l3: "\<not> installsScore ?l3" "scoreBearing ?l3"
      "matchNumber ''depth '' False ?l3 = Some 2"
    by code_simp+
  have e2: "emitted (handleInfoLine ?s ?l2) \<noteq> emitted ?s"
    by code_simp
  have e3: "emitted (handleInfoLine ?s ?l3) \<noteq> emitted ?s"
    by code_simp
  have A: "\<exists>a. currentEvaluation (handleInfoLine ?s ?l2) = Some a
      \<and> a = 1
      \<and> currentEvaluation ?s = Some 0
      \<and> depth (heap (handleInfoLine ?s ?l2) a) = Num 13
      \<and> time (heap (handleInfoLine ?s ?l2) a) = Null
      \<and> heap (handleInfoLine ?s ?l2) 0
          = \<lparr>etype = ''centipawn'', evalue = 34, depth = Num 12, nodes = Num 1000, time = Num 50\<rparr>"
    using evaluation_update_overwrites [OF e2] l2 s2 by auto
  have B: "\<exists>a. currentEvaluation (handleInfoLine ?s ?l3) = Some a
      \<and> a = 0
      \<and> scoreBearing ?l3
      \<and> depth (heap (handleInfoLine ?s ?l3) a) = Num 2
      \<and> evalue (heap (handleInfoLine ?s ?l3) a) = 34"
    using evaluation_update_overwrites [OF e3] l3 s2 by auto
  show ?thesis
    by (intro conjI) (rule W A B)+
qed

text \<open>
  Two info lines that both carry a score. Each installs an object of its own, so the
  two evaluation notifications carry two different objects: the first keeps depth 1
  and nodes 5 after the second has been emitted with depth 2 and nodes 50.
\<close>

theorem evaluation_update_counterexample:
  "map_option (\<lambda>s. (emitted s, currentEvaluation s, heap s 0, heap s 1))
     (run constructor [Stdout ''info depth 1 score cp 10 nodes 5'',
                       Stdout ''info depth 2 score cp 20 nodes 50''])
   = Some ([EvaluationN 0 \<lparr>etype = ''centipawn'', evalue = 10, depth = Num 1, nodes = Num 5,
                              time = Null\<rparr>,
            EvaluationN 1 \<lparr>etype = ''centipawn'', evalue = 20, depth = Num 2, nodes = Num 50,
                              time = Null\<rparr>],
           Some 1,
           \<lparr>etype = ''centipawn'', evalue = 10, depth = Num 1, nodes = Num 5, time = Null\<rparr>,
           \<lparr>etype = ''centipawn'', evalue = 20, depth = Num 2, nodes = Num 50, time = Null\<rparr>)"
  by code_simp

section \<open>Best-move lines\<close>

lemma splitOn_sep:
  "c \<notin> set w \<Longrightarrow> splitOn c (w @ c # r) = w # splitOn c r"
  by (induction w) auto

lemma splitOn_token:
  "c \<notin> set w \<Longrightarrow> rest = [] \<or> hd rest = c \<Longrightarrow> \<exists>ws. splitOn c (w @ rest) = w # ws"
proof (cases rest)
  case Nil
  assume "c \<notin> set w"
  then have "splitOn c w = [w]" by (induction w) auto
  then show ?thesis using Nil by simp
next
  case (Cons x r)
  assume "c \<notin> set w" "rest = [] \<or> hd rest = c"
  then show ?thesis using Cons splitOn_sep [of c w r] by auto
qed

lemma space_isSpace: "isSpace CHR '' ''"
  by (simp add: isSpace_def)

lemma bestmove_parts:
  assumes "\<forall>c\<in>set mv. \<not> isSpace c" "rest = [] \<or> hd rest = CHR '' ''"
  shows "jsIndex (splitOn CHR '' '' (''bestmove '' @ mv @ rest)) 1 = Some mv"
proof -
  have n: "CHR '' '' \<notin> set mv" using assms(1) space_isSpace by blast
  obtain ws where ws: "splitOn CHR '' '' (mv @ rest) = mv # ws"
    using splitOn_token [OF n assms(2)] by blast
  have "splitOn CHR '' '' (''bestmove'' @ CHR '' '' # (mv @ rest)) = ''bestmove'' # splitOn CHR '' '' (mv @ rest)"
    by (rule splitOn_sep) simp
  then have "splitOn CHR '' '' (''bestmove '' @ mv @ rest) = ''bestmove'' # mv # ws"
    using ws by simp
  then show ?thesis by (simp add: jsIndex_def)
qed

lemma bestmove_firstToken:
  assumes "mv \<noteq> []" "\<forall>c\<in>set mv. \<not> isSpace c" "rest = [] \<or> hd rest = CHR '' ''"
  shows "firstToken (drop (length ''bestmove'') (''bestmove '' @ mv @ rest)) = mv"
proof -
  have d: "drop (length ''bestmove'') (''bestmove '' @ mv @ rest) = CHR '' '' # mv @ rest"
    by simp
  have "dropWhile isSpace (CHR '' '' # mv @ rest) = mv @ rest"
    using assms(1,2) by (cases mv) (auto simp add: space_isSpace)
  moreover have "takeWhile (\<lambda>c. \<not> isSpace c) (mv @ rest) = mv"
  proof (cases rest)
    case Nil
    then show ?thesis using assms(2) by simp
  next
    case (Cons x r)
    then have "isSpace x" using assms(3) space_isSpace by auto
    then show ?thesis using assms(2) Cons by (simp add: takeWhile_tail)
  qed
  ultimately show ?thesis unfolding d firstToken_def by simp
qed

lemma handleLine_bestmove:
  assumes "startsWith line ''bestmove''"
  shows "handleLine s line = Some (handleBestMove (s\<lparr>console := console s @ [LogStockfish line]\<rparr>) line)"
proof -
  have "line \<noteq> ''uciok''" "line \<noteq> ''readyok''"
    using assms by (auto simp add: startsWith_def)
  then show ?thesis using assms by (simp add: handleLine_def Let_def)
qed

lemma handleBestMove_timers:
  "moveTimeout (handleBestMove s line) = None"
  "timers (handleBestMove s line) =
     (case moveTimeout s of
        None \<Rightarrow> timers s
      | Some i \<Rightarrow> (timers s)[i := (timers s ! i)\<lparr>armed := False\<rparr>])"
  by (simp_all add: handleBestMove_def Let_def clearTimeout_def split: option.splits)

lemma handleBestMove_emitted:
  "emitted (handleBestMove s line)
     = emitted s @ [BestmoveN (jsIndex (splitOn CHR '' '' line) 1) (currentEvaluation s)]"
  using handleBestMove_shape [of s line] by auto

lemma armedTimers_cleared:
  assumes "\<forall>i\<in>set (armedTimers s). moveTimeout s = Some i"
    and "timers s' = (case moveTimeout s of
        None \<Rightarrow> timers s
      | Some i \<Rightarrow> (timers s)[i := (timers s ! i)\<lparr>armed := False\<rparr>])"
  shows "armedTimers s' = []"
proof -
  have "\<not> armed (timers s' ! j)" if j: "j < length (timers s')" for j
  proof
    assume a: "armed (timers s' ! j)"
    have l: "length (timers s') = length (timers s)"
      using assms(2) by (simp split: option.splits)
    show False
    proof (cases "moveTimeout s")
      case None
      then have "j \<in> set (armedTimers s)" using a j assms(2) by (simp add: armedTimers_def)
      then show False using assms(1) None by auto
    next
      case (Some i)
      have ji: "j \<noteq> i" using a j l Some assms(2) by auto
      then have "armed (timers s ! j)" using a Some assms(2) by simp
      then have "j \<in> set (armedTimers s)" using j l by (simp add: armedTimers_def)
      then show False using assms(1) Some ji by auto
    qed
  qed
  then show ?thesis by (auto simp add: armedTimers_def filter_empty_conv)
qed


lemma handleInfoLine_currentEvaluation:
  "currentEvaluation (handleInfoLine s line) = currentEvaluation (scoreUpdate s line)"
  by (simp add: handleInfoLine_alt split: option.splits)

lemma handleLine_currentEvaluation:
  assumes "handleLine s line = Some s'" "\<not> (startsWith line ''info'' \<and> scoreBearing line)"
  shows "currentEvaluation s' = currentEvaluation s"
proof -
  let ?s0 = "s\<lparr>console := console s @ [LogStockfish line]\<rparr>"
  consider (uciok) "line = ''uciok''" | (readyok) "line = ''readyok''"
    | (bm) "line \<noteq> ''uciok''" "line \<noteq> ''readyok''" "startsWith line ''bestmove''"
    | (info) "line \<noteq> ''uciok''" "line \<noteq> ''readyok''" "\<not> startsWith line ''bestmove''" "startsWith line ''info''"
    | (other) "line \<noteq> ''uciok''" "line \<noteq> ''readyok''" "\<not> startsWith line ''bestmove''" "\<not> startsWith line ''info''"
    by blast
  then show ?thesis
  proof cases
    case uciok
    then show ?thesis using assms(1) by (auto simp add: handleLine_def)
  next
    case readyok
    then show ?thesis using assms(1) readyok_first [of s] readyok_again [of s]
      by (cases "isReady s") auto
  next
    case bm
    then show ?thesis using assms(1) by (auto simp add: handleLine_def)
  next
    case info
    then have "s' = handleInfoLine ?s0 line" using assms(1) by (simp add: handleLine_def)
    moreover have "scoreUpdate ?s0 line = ?s0"
      using info assms(2) by (intro scoreUpdate_no_score) simp
    ultimately show ?thesis by (simp add: handleInfoLine_currentEvaluation)
  next
    case other
    then show ?thesis using assms(1) by (auto simp add: handleLine_def)
  qed
qed

lemma handleLines_currentEvaluation:
  "handleLines s ls = Some s' \<Longrightarrow>
   \<not> list_ex (\<lambda>l. startsWith l ''info'' \<and> scoreBearing l) ls \<Longrightarrow>
   currentEvaluation s' = currentEvaluation s"
proof (induction ls arbitrary: s)
  case Nil
  then show ?case by simp
next
  case (Cons l ls)
  then obtain s1 where 1: "handleLine s l = Some s1" and 2: "handleLines s1 ls = Some s'"
    by (auto split: option.splits)
  have "currentEvaluation s1 = currentEvaluation s"
    using 1 Cons.prems(2) by (intro handleLine_currentEvaluation) auto
  moreover have "currentEvaluation s' = currentEvaluation s1"
    using Cons.IH [OF 2] Cons.prems(2) by simp
  ultimately show ?case by simp
qed

lemma step_currentEvaluation:
  "step s e = Some s' \<Longrightarrow> \<not> scoreEvent e \<Longrightarrow> currentEvaluation s' = currentEvaluation s"
proof (cases e)
  case (Stdout d)
  assume "step s e = Some s'" "\<not> scoreEvent e"
  then show ?thesis using Stdout handleLines_currentEvaluation
    by (simp add: handleStockfishOutput_def)
qed (auto simp add: initialize_def onStderr_def onClose_def onError_def fireTimer_def
       timeoutCallback_def getBestMove_def evaluatePosition_def setSkillLevel_def stop_def
       quit_def Let_def split: if_splits)

lemma run_currentEvaluation:
  "run s es = Some s' \<Longrightarrow> \<forall>e\<in>set es. \<not> scoreEvent e \<Longrightarrow>
   currentEvaluation s' = currentEvaluation s"
proof (induction es arbitrary: s)
  case Nil
  then show ?case by simp
next
  case (Cons e es)
  then obtain s1 where 1: "step s e = Some s1" and 2: "run s1 es = Some s'"
    by (auto split: option.splits)
  have "currentEvaluation s1 = currentEvaluation s"
    using 1 Cons.prems(2) by (intro step_currentEvaluation) auto
  moreover have "currentEvaluation s' = currentEvaluation s1"
    using Cons.IH [OF 2] Cons.prems(2) by simp
  ultimately show ?case by simp
qed

text \<open>
  C6, as the code has it. Every line that starts with the marker \<^verbatim>\<open>bestmove\<close> is handled as a best-move
  line: the manager clears the timer it has recorded, so that no cancellation timer
  stays armed when that timer is the only one armed, and appends exactly one move
  notification carrying the second field of the line split at single spaces and the
  current Evaluation reference. For a line of the protocol's form, the marker followed
  by one space and the move, the move ending the line or followed by a space, that
  field is the first whitespace-delimited token after the marker. The Evaluation
  reference is null in every state reached from a new manager by events none of which
  brought an info line with a score.
\<close>

theorem bestmove_line:
  assumes "startsWith line ''bestmove''"
  shows "(\<exists>s'. handleLine s line = Some s'
          \<and> emitted s' = emitted s
                @ [BestmoveN (jsIndex (splitOn CHR '' '' line) 1) (currentEvaluation s)]
          \<and> moveTimeout s' = None
          \<and> timers s' = (case moveTimeout s of
                           None \<Rightarrow> timers s
                         | Some i \<Rightarrow> (timers s)[i := (timers s ! i)\<lparr>armed := False\<rparr>])
          \<and> ((\<forall>i\<in>set (armedTimers s). moveTimeout s = Some i) \<longrightarrow> armedTimers s' = []))
     \<and> (line = ''bestmove '' @ mv @ rest \<and> mv \<noteq> [] \<and> (\<forall>c\<in>set mv. \<not> isSpace c)
          \<and> (rest = [] \<or> hd rest = CHR '' '') \<longrightarrow>
          jsIndex (splitOn CHR '' '' line) 1 = Some mv
          \<and> firstToken (drop (length ''bestmove'') line) = mv)
     \<and> ((\<forall>e\<in>set es. \<not> scoreEvent e) \<longrightarrow>
          (\<exists>s0 s'. run constructor es = Some s0
             \<and> currentEvaluation s0 = None
             \<and> handleLine s0 line = Some s'
             \<and> emitted s' = emitted s0
                   @ [BestmoveN (jsIndex (splitOn CHR '' '' line) 1) None]))"
proof -
  have hl: "handleLine x line = Some (handleBestMove (x\<lparr>console := console x @ [LogStockfish line]\<rparr>) line)" for x
    using assms by (rule handleLine_bestmove)
  have em: "emitted (handleBestMove (x\<lparr>console := console x @ [LogStockfish line]\<rparr>) line)
      = emitted x @ [BestmoveN (jsIndex (splitOn CHR '' '' line) 1) (currentEvaluation x)]" for x
    by (simp add: handleBestMove_emitted)
  define s' where "s' = handleBestMove (s\<lparr>console := console s @ [LogStockfish line]\<rparr>) line"
  have t: "timers s' = (case moveTimeout s of
                           None \<Rightarrow> timers s
                         | Some i \<Rightarrow> (timers s)[i := (timers s ! i)\<lparr>armed := False\<rparr>])"
    unfolding s'_def by (simp add: handleBestMove_timers split: option.splits)
  have "armedTimers s' = []" if "\<forall>i\<in>set (armedTimers s). moveTimeout s = Some i"
    using that t by (rule armedTimers_cleared)
  then have 1: "\<exists>s'. handleLine s line = Some s'
          \<and> emitted s' = emitted s
                @ [BestmoveN (jsIndex (splitOn CHR '' '' line) 1) (currentEvaluation s)]
          \<and> moveTimeout s' = None
          \<and> timers s' = (case moveTimeout s of
                           None \<Rightarrow> timers s
                         | Some i \<Rightarrow> (timers s)[i := (timers s ! i)\<lparr>armed := False\<rparr>])
          \<and> ((\<forall>i\<in>set (armedTimers s). moveTimeout s = Some i) \<longrightarrow> armedTimers s' = [])"
    using hl [of s] em [of s] t unfolding s'_def by (simp add: handleBestMove_timers)
  have 2: "jsIndex (splitOn CHR '' '' line) 1 = Some mv
          \<and> firstToken (drop (length ''bestmove'') line) = mv"
    if f: "line = ''bestmove '' @ mv @ rest \<and> mv \<noteq> [] \<and> (\<forall>c\<in>set mv. \<not> isSpace c)
          \<and> (rest = [] \<or> hd rest = CHR '' '')"
  proof -
    have l: "line = ''bestmove '' @ mv @ rest" and a: "mv \<noteq> []" "\<forall>c\<in>set mv. \<not> isSpace c"
      "rest = [] \<or> hd rest = CHR '' ''"
      using f by blast+
    have "jsIndex (splitOn CHR '' '' line) 1 = Some mv"
      unfolding l using a(2,3) by (rule bestmove_parts)
    moreover have "firstToken (drop (length ''bestmove'') line) = mv"
      unfolding l using a by (rule bestmove_firstToken)
    ultimately show ?thesis by blast
  qed
  have 3: "\<exists>s0 s'. run constructor es = Some s0
             \<and> currentEvaluation s0 = None
             \<and> handleLine s0 line = Some s'
             \<and> emitted s' = emitted s0
                   @ [BestmoveN (jsIndex (splitOn CHR '' '' line) 1) None]"
    if ne: "\<forall>e\<in>set es. \<not> scoreEvent e"
  proof -
    obtain s0 where r: "run constructor es = Some s0" using run_total by blast
    have "currentEvaluation s0 = currentEvaluation constructor"
      using r ne by (rule run_currentEvaluation)
    then have "currentEvaluation s0 = None" by (simp add: constructor_def)
    then show ?thesis using r hl [of s0] em [of s0] by simp
  qed
  show ?thesis using 1 2 3 by blast
qed

theorem bestmove_line_witness:
  "(\<exists>s'. handleLine
              (getBestMove (constructor\<lparr>stockfishProcess := Some 0, isReady := True\<rparr>) ''startpos'' 1000)
              ''bestmove e2e4 ponder e7e5'' = Some s'
          \<and> emitted s' = [BestmoveN (Some ''e2e4'') None]
          \<and> moveTimeout s' = None
          \<and> armedTimers s' = [])
   \<and> jsIndex (splitOn CHR '' '' ''bestmove e2e4 ponder e7e5'') 1 = Some ''e2e4''
   \<and> firstToken (drop (length ''bestmove'') ''bestmove e2e4 ponder e7e5'') = ''e2e4''
   \<and> (\<exists>s0 s'. run constructor [Initialize ''stockfish'' True, Stdout ''uciok'', Stdout ''readyok'',
                              GetBestMove ''startpos'' 1000, Stdout ''info depth 1 currmove e2e4'']
               = Some s0
          \<and> currentEvaluation s0 = None
          \<and> handleLine s0 ''bestmove e2e4 ponder e7e5'' = Some s'
          \<and> emitted s' = emitted s0 @ [BestmoveN (Some ''e2e4'') None])"
proof -
  let ?s = "getBestMove (constructor\<lparr>stockfishProcess := Some 0, isReady := True\<rparr>) ''startpos'' 1000"
  let ?es = "[Initialize ''stockfish'' True, Stdout ''uciok'', Stdout ''readyok'',
              GetBestMove ''startpos'' 1000, Stdout ''info depth 1 currmove e2e4'']"
  have 0: "startsWith ''bestmove e2e4 ponder e7e5'' ''bestmove''" by code_simp
  have 1: "''bestmove e2e4 ponder e7e5'' = ''bestmove '' @ ''e2e4'' @ '' ponder e7e5''
      \<and> ''e2e4'' \<noteq> [] \<and> (\<forall>c\<in>set ''e2e4''. \<not> isSpace c)
      \<and> ('' ponder e7e5'' = [] \<or> hd '' ponder e7e5'' = CHR '' '')"
    by (simp add: isSpace_def)
  note t = bestmove_line [of "''bestmove e2e4 ponder e7e5''" ?s "''e2e4''" "'' ponder e7e5''" ?es, OF 0]
  have a: "\<forall>i\<in>set (armedTimers ?s). moveTimeout ?s = Some i" by code_simp
  have e: "\<forall>e\<in>set ?es. \<not> scoreEvent e" by code_simp
  have s: "emitted ?s = []" "currentEvaluation ?s = None" by code_simp+
  have ix: "jsIndex (splitOn CHR '' '' ''bestmove e2e4 ponder e7e5'') 1 = Some ''e2e4''"
    and ft: "firstToken (drop (length ''bestmove'') ''bestmove e2e4 ponder e7e5'') = ''e2e4''"
    using t 1 by blast+
  obtain s' where h: "handleLine ?s ''bestmove e2e4 ponder e7e5'' = Some s'"
      "emitted s' = emitted ?s
         @ [BestmoveN (jsIndex (splitOn CHR '' '' ''bestmove e2e4 ponder e7e5'') 1) (currentEvaluation ?s)]"
      "moveTimeout s' = None"
      "(\<forall>i\<in>set (armedTimers ?s). moveTimeout ?s = Some i) \<longrightarrow> armedTimers s' = []"
    using t [THEN conjunct1] by blast
  have A: "\<exists>s'. handleLine ?s ''bestmove e2e4 ponder e7e5'' = Some s'
          \<and> emitted s' = [BestmoveN (Some ''e2e4'') None]
          \<and> moveTimeout s' = None
          \<and> armedTimers s' = []"
    using h a unfolding ix s by auto
  note C = t [THEN conjunct2, THEN conjunct2, THEN mp, OF e, unfolded ix]
  show ?thesis
    by (intro conjI) (rule A ix ft C)+
qed

text \<open>
  A line with two spaces after the marker is handled as a best-move line. Its first
  whitespace-delimited token after the marker is \<^verbatim>\<open>e2e4\<close>, but the move notification
  carries the empty string, the second field of the line split at single spaces.
\<close>

theorem bestmove_line_counterexample:
  "startsWith ''bestmove  e2e4'' ''bestmove''
   \<and> firstToken (drop (length ''bestmove'') ''bestmove  e2e4'') = ''e2e4''
   \<and> map_option emitted (run constructor [Stdout ''bestmove  e2e4''])
       = Some [BestmoveN (Some []) None]"
  by code_simp

section \<open>Requests across the operations\<close>

lemma settle_length [simp]:
  "length (requests (settle p oc s)) = length (requests s)"
  by (simp add: settle_def)

lemma settle_other:
  "p \<noteq> pid \<Longrightarrow> requests (settle p oc s) ! pid = requests s ! pid"
  by (simp add: settle_def)

lemma settle_finalEvaluation [simp]:
  "finalEvaluation (requests (settle p oc s) ! pid) = finalEvaluation (requests s ! pid)"
  by (cases "p = pid") (simp_all add: settle_def)

lemma settle_pending:
  "pid < length (requests s) \<Longrightarrow> outcome (requests s ! pid) = Pending \<Longrightarrow>
   outcome (requests (settle pid oc s) ! pid) = oc"
  by (simp add: settle_def)

lemma settle_settled:
  "outcome (requests s ! pid) \<noteq> Pending \<Longrightarrow> settle pid oc s = s"
  by (simp add: settle_def)

lemma evaluationHandler_length [simp]:
  "length (requests (evaluationHandler a s l)) = length (requests s)"
  by (cases l) simp

lemma evaluationHandler_outcome [simp]:
  "outcome (requests (evaluationHandler a s l) ! p) = outcome (requests s ! p)"
proof (cases l)
  case (EvaluationHandler q d)
  show ?thesis
    by (cases "p = q"; cases "q < length (requests s)")
       (simp_all add: EvaluationHandler list_update_beyond not_less)
qed

lemma foldl_evaluationHandler_length [simp]:
  "length (requests (foldl (evaluationHandler a) s ls)) = length (requests s)"
  by (induction ls arbitrary: s) simp_all

lemma foldl_evaluationHandler_outcome [simp]:
  "outcome (requests (foldl (evaluationHandler a) s ls) ! p) = outcome (requests s ! p)"
  by (induction ls arbitrary: s) simp_all

lemma emitEvaluation_length [simp]:
  "length (requests (emitEvaluation s a)) = length (requests s)"
  by (simp add: emitEvaluation_def)

lemma emitEvaluation_outcome [simp]:
  "outcome (requests (emitEvaluation s a) ! p) = outcome (requests s ! p)"
  by (simp add: emitEvaluation_def)

lemma handleInfoLine_length [simp]:
  "length (requests (handleInfoLine s line)) = length (requests s)"
  by (simp add: handleInfoLine_alt split: option.splits)

lemma handleInfoLine_outcome [simp]:
  "outcome (requests (handleInfoLine s line) ! p) = outcome (requests s ! p)"
  by (simp add: handleInfoLine_alt split: option.splits)

lemma moveHandler_length [simp]:
  "length (requests (moveHandler mv ev s l)) = length (requests s)"
  by (cases l) (simp_all add: Let_def)

lemma foldl_moveHandler_length [simp]:
  "length (requests (foldl (moveHandler mv ev) s ls)) = length (requests s)"
  by (induction ls arbitrary: s) simp_all

lemma emitBestmove_length [simp]:
  "length (requests (emitBestmove s mv ev)) = length (requests s)"
  by (simp add: emitBestmove_def)

lemma handleBestMove_length [simp]:
  "length (requests (handleBestMove s line)) = length (requests s)"
  by (simp add: handleBestMove_def Let_def clearTimeout_def split: option.splits)

text \<open>What a line other than a best-move line leaves alone.\<close>

lemma handleLine_quiet_requests:
  assumes "handleLine s line = Some s'" "\<not> startsWith line ''bestmove''"
  shows "timers s' = timers s" "length (requests s') = length (requests s)"
    "outcome (requests s' ! p) = outcome (requests s ! p)"
    "bestmoveListeners s' = bestmoveListeners s"
    "evaluationListeners s' = evaluationListeners s"
    "stockfishProcess s' = stockfishProcess s"
proof -
  let ?s0 = "s\<lparr>console := console s @ [LogStockfish line]\<rparr>"
  consider (uciok) "line = ''uciok''" | (readyok) "line = ''readyok''"
    | (info) "line \<noteq> ''uciok''" "line \<noteq> ''readyok''" "startsWith line ''info''"
    | (other) "line \<noteq> ''uciok''" "line \<noteq> ''readyok''" "\<not> startsWith line ''info''"
    by blast
  then have "timers s' = timers s \<and> length (requests s') = length (requests s)
    \<and> outcome (requests s' ! p) = outcome (requests s ! p)
    \<and> bestmoveListeners s' = bestmoveListeners s
    \<and> evaluationListeners s' = evaluationListeners s
    \<and> stockfishProcess s' = stockfishProcess s"
  proof cases
    case uciok
    then show ?thesis using assms(1) by (auto simp add: handleLine_def)
  next
    case readyok
    then show ?thesis using assms(1) readyok_first [of s] readyok_again [of s]
      by (cases "isReady s") auto
  next
    case info
    then have "s' = handleInfoLine ?s0 line" using assms by (simp add: handleLine_def)
    then show ?thesis by simp
  next
    case other
    then have "s' = ?s0" using assms by (simp add: handleLine_def)
    then show ?thesis by simp
  qed
  then show "timers s' = timers s" "length (requests s') = length (requests s)"
    "outcome (requests s' ! p) = outcome (requests s ! p)"
    "bestmoveListeners s' = bestmoveListeners s"
    "evaluationListeners s' = evaluationListeners s"
    "stockfishProcess s' = stockfishProcess s"
    by simp_all
qed

lemma handleLines_quiet_requests:
  "handleLines s ls = Some s' \<Longrightarrow> \<not> list_ex (\<lambda>l. startsWith l ''bestmove'') ls \<Longrightarrow>
   timers s' = timers s \<and> length (requests s') = length (requests s)
     \<and> outcome (requests s' ! p) = outcome (requests s ! p)
     \<and> bestmoveListeners s' = bestmoveListeners s
     \<and> evaluationListeners s' = evaluationListeners s
     \<and> stockfishProcess s' = stockfishProcess s"
proof (induction ls arbitrary: s)
  case Nil
  then show ?case by simp
next
  case (Cons l ls)
  then obtain s1 where 1: "handleLine s l = Some s1" and 2: "handleLines s1 ls = Some s'"
    by (auto split: option.splits)
  have nb: "\<not> startsWith l ''bestmove''" using Cons.prems(2) by simp
  note h = handleLine_quiet_requests [OF 1 nb]
  have "timers s' = timers s1 \<and> length (requests s') = length (requests s1)
     \<and> outcome (requests s' ! p) = outcome (requests s1 ! p)
     \<and> bestmoveListeners s' = bestmoveListeners s1
     \<and> evaluationListeners s' = evaluationListeners s1
     \<and> stockfishProcess s' = stockfishProcess s1"
    using Cons.IH [OF 2] Cons.prems(2) by simp
  then show ?case using h by simp
qed

section \<open>The cancellation timer of a best-move request\<close>

lemma timerPending_frame:
  "timerPending tid pid dl s \<Longrightarrow> timers s' = timers s \<Longrightarrow>
   length (requests s') = length (requests s) \<Longrightarrow>
   outcome (requests s' ! pid) = outcome (requests s ! pid) \<Longrightarrow>
   timerPending tid pid dl s'"
  by (simp add: timerPending_def)

lemma timerPending_append:
  "timerPending tid pid dl s \<Longrightarrow> timers s' = timers s \<Longrightarrow>
   requests s' = requests s @ rs \<Longrightarrow> timerPending tid pid dl s'"
  by (simp add: timerPending_def nth_append)

lemma sendCommand_timerPending [simp]:
  "timerPending tid pid dl (sendCommand s c) = timerPending tid pid dl s"
  by (simp add: timerPending_def)

lemma getBestMove_timerPending:
  assumes "timerPending tid pid dl s"
  shows "timerPending tid pid dl (getBestMove s fen t)"
proof (cases "isReady s")
  case False
  then show ?thesis using assms
    by (intro timerPending_append [OF assms]) (simp_all add: getBestMove_def)
next
  case True
  define s1 where "s1 = s\<lparr>requests := requests s @ [\<lparr>outcome = Pending, finalEvaluation = None\<rparr>],
                    timers := timers s @ [\<lparr>delay = t + 1000, tpid = length (requests s),
                                             armed = True\<rparr>],
                    moveTimeout := Some (length (timers s)),
                    bestmoveListeners := bestmoveListeners s @ [MoveHandler (length (requests s))]\<rparr>"
  have "timerPending tid pid dl s1"
    using assms unfolding timerPending_def s1_def
    by (auto simp add: nth_append less_Suc_eq)
  moreover have "getBestMove s fen t
      = sendCommand (sendCommand s1 (''position fen '' @ fen)) (''go movetime '' @ showInt t)"
    using True by (simp add: getBestMove_def s1_def Let_def)
  ultimately show ?thesis by simp
qed

lemma evaluatePosition_timerPending:
  assumes "timerPending tid pid dl s"
  shows "timerPending tid pid dl (evaluatePosition s fen d)"
proof (cases "isReady s")
  case False
  then show ?thesis using assms
    by (intro timerPending_append [OF assms]) (simp_all add: evaluatePosition_def)
next
  case True
  define s1 where "s1 = s\<lparr>requests := requests s @ [\<lparr>outcome = Pending, finalEvaluation = None\<rparr>],
                    evaluationListeners :=
                      evaluationListeners s @ [EvaluationHandler (length (requests s)) d],
                    bestmoveListeners :=
                      bestmoveListeners s @ [EvalMoveHandler (length (requests s)) d]\<rparr>"
  have "timerPending tid pid dl s1"
    by (rule timerPending_append [OF assms]) (simp_all add: s1_def)
  moreover have "evaluatePosition s fen d
      = sendCommand (sendCommand s1 (''position fen '' @ fen)) (''go depth '' @ showInt d)"
    using True by (simp add: evaluatePosition_def s1_def Let_def)
  ultimately show ?thesis by simp
qed

lemma disarm_tpid [simp]:
  "tpid (ts[j := (ts ! j)\<lparr>armed := False\<rparr>] ! k) = tpid (ts ! k)"
  by (cases "j < length ts") (simp_all add: nth_list_update list_update_beyond)

lemma fireTimer_other_timerPending:
  assumes "timerPending tid pid dl s" "j \<noteq> tid"
  shows "timerPending tid pid dl (fireTimer s j)"
proof (cases "j < length (timers s) \<and> armed (timers s ! j)")
  case False
  then show ?thesis using assms by (auto simp add: fireTimer_def)
next
  case True
  define s1 where "s1 = s\<lparr>timers := (timers s)[j := (timers s ! j)\<lparr>armed := False\<rparr>]\<rparr>"
  have ne: "tpid (timers s ! j) \<noteq> pid"
    using assms True by (simp add: timerPending_def)
  have 1: "timerPending tid pid dl s1"
    using assms unfolding timerPending_def s1_def by simp
  have f: "fireTimer s j = settle (tpid (timers s ! j)) (Rejected Timeout) (sendCommand s1 ''stop'')"
    using True by (simp add: fireTimer_def timeoutCallback_def s1_def)
  have 2: "timerPending tid pid dl (sendCommand s1 ''stop'')" using 1 by simp
  show ?thesis unfolding f
    by (rule timerPending_frame [OF 2]) (simp_all add: settle_other [OF ne])
qed

lemma step_timerPending:
  assumes "timerPending tid pid dl s" "step s e = Some s'" "\<not> bestmoveEvent e" "e \<noteq> TimerFire tid"
  shows "timerPending tid pid dl s'"
proof (cases e)
  case (Initialize p ex)
  then have "s' = initialize s p ex" using assms by simp
  then show ?thesis
    by (intro timerPending_frame [OF assms(1)]) (simp_all add: initialize_def)
next
  case (Stdout d)
  then have "handleLines s (splitOn nl (trim d)) = Some s'"
      "\<not> list_ex (\<lambda>l. startsWith l ''bestmove'') (splitOn nl (trim d))"
    using assms by (simp_all add: handleStockfishOutput_def)
  from handleLines_quiet_requests [OF this, of pid] show ?thesis
    using assms(1) by (intro timerPending_frame [OF assms(1)]) simp_all
next
  case (Stderr d)
  then have "timers s' = timers s \<and> requests s' = requests s"
    using assms by (auto simp add: onStderr_def)
  then show ?thesis
    by (intro timerPending_frame [OF assms(1)]) auto
next
  case (Close code)
  then have "timers s' = timers s \<and> requests s' = requests s"
    using assms by (auto simp add: onClose_def)
  then show ?thesis
    by (intro timerPending_frame [OF assms(1)]) auto
next
  case (ProcError m)
  then have "timers s' = timers s \<and> requests s' = requests s"
    using assms by (auto simp add: onError_def)
  then show ?thesis
    by (intro timerPending_frame [OF assms(1)]) auto
next
  case (TimerFire j)
  then show ?thesis using assms fireTimer_other_timerPending by auto
next
  case (SendCommand c)
  then show ?thesis using assms by auto
next
  case (GetBestMove fen t)
  then show ?thesis using assms getBestMove_timerPending by auto
next
  case (EvaluatePosition fen d)
  then show ?thesis using assms evaluatePosition_timerPending by auto
next
  case (SetSkillLevel l)
  then show ?thesis using assms by (auto simp add: setSkillLevel_def Let_def split: if_splits)
next
  case Stop
  then show ?thesis using assms by (auto simp add: stop_def split: if_splits)
next
  case Quit
  then have "s' = quit s" using assms by simp
  then show ?thesis
    by (intro timerPending_frame [OF assms(1)]) (simp_all add: quit_def)
qed

lemma run_timerPending:
  "timerPending tid pid dl s \<Longrightarrow> run s es = Some s' \<Longrightarrow>
   \<forall>e\<in>set es. \<not> bestmoveEvent e \<and> e \<noteq> TimerFire tid \<Longrightarrow> timerPending tid pid dl s'"
proof (induction es arbitrary: s)
  case Nil
  then show ?case by simp
next
  case (Cons e es)
  then obtain s1 where 1: "step s e = Some s1" and 2: "run s1 es = Some s'"
    by (auto split: option.splits)
  have "timerPending tid pid dl s1"
    using Cons.prems(1) 1 Cons.prems(3) by (intro step_timerPending [of tid pid dl s e s1]) auto
  then show ?case using Cons.IH [OF _ 2] Cons.prems(3) by simp
qed

lemma getBestMove_arms:
  assumes "isReady s" "wfTimers s"
  shows "timerPending (length (timers s)) (length (requests s)) (t + 1000) (getBestMove s fen t)"
proof -
  define s1 where "s1 = s\<lparr>requests := requests s @ [\<lparr>outcome = Pending, finalEvaluation = None\<rparr>],
                    timers := timers s @ [\<lparr>delay = t + 1000, tpid = length (requests s),
                                             armed = True\<rparr>],
                    moveTimeout := Some (length (timers s)),
                    bestmoveListeners := bestmoveListeners s @ [MoveHandler (length (requests s))]\<rparr>"
  have "\<forall>j<length (timers s). tpid (timers s ! j) < length (requests s)"
    using assms(2) by (simp add: wfTimers_def list_all_length)
  then have "timerPending (length (timers s)) (length (requests s)) (t + 1000) s1"
    unfolding timerPending_def s1_def
    by (auto simp add: nth_append less_Suc_eq)
  moreover have "getBestMove s fen t
      = sendCommand (sendCommand s1 (''position fen '' @ fen)) (''go movetime '' @ showInt t)"
    using assms(1) by (simp add: getBestMove_def s1_def Let_def)
  ultimately show ?thesis by simp
qed

lemma fireTimer_pending:
  assumes "timerPending tid pid dl s"
  shows "fireTimer s tid
      = settle pid (Rejected Timeout)
          (sendCommand (s\<lparr>timers := (timers s)[tid := (timers s ! tid)\<lparr>armed := False\<rparr>]\<rparr>) ''stop'')"
    and "outcome (requests (fireTimer s tid) ! pid) = Rejected Timeout"
    and "\<not> armed (timers (fireTimer s tid) ! tid)"
    and "fireTimer (fireTimer s tid) tid = fireTimer s tid"
proof -
  define s1 where "s1 = s\<lparr>timers := (timers s)[tid := (timers s ! tid)\<lparr>armed := False\<rparr>]\<rparr>"
  have a: "tid < length (timers s)" "armed (timers s ! tid)" "tpid (timers s ! tid) = pid"
    "pid < length (requests s)" "outcome (requests s ! pid) = Pending"
    using assms by (simp_all add: timerPending_def)
  show f: "fireTimer s tid = settle pid (Rejected Timeout) (sendCommand s1 ''stop'')"
    using a by (simp add: fireTimer_def timeoutCallback_def s1_def)
  show "outcome (requests (fireTimer s tid) ! pid) = Rejected Timeout"
    unfolding f using a by (intro settle_pending) (simp_all add: s1_def)
  show n: "\<not> armed (timers (fireTimer s tid) ! tid)"
    unfolding f using a by (simp add: s1_def)
  show "fireTimer (fireTimer s tid) tid = fireTimer s tid"
    using n by (simp add: fireTimer_def [of "fireTimer s tid"])
qed

lemma disarm_map_tpid:
  "map tpid (ts[i := (ts ! i)\<lparr>armed := False\<rparr>]) = map tpid ts"
  by (rule nth_equalityI) simp_all

lemma wfTimers_frame:
  assumes "wfTimers s" "map tpid (timers s') = map tpid (timers s)"
    "length (requests s) \<le> length (requests s')"
  shows "wfTimers s'"
proof -
  have "\<forall>x\<in>set (map tpid (timers s)). x < length (requests s)"
    using assms(1) by (simp add: wfTimers_def list_all_iff)
  then have "\<forall>x\<in>set (map tpid (timers s')). x < length (requests s')"
    using assms(2,3) by auto
  then show ?thesis by (simp add: wfTimers_def list_all_iff)
qed

lemma handleLine_wfTimers:
  assumes "wfTimers s" "handleLine s line = Some s'"
  shows "wfTimers s'"
proof (cases "startsWith line ''bestmove''")
  case True
  then have "s' = handleBestMove (s\<lparr>console := console s @ [LogStockfish line]\<rparr>) line"
    using assms(2) handleLine_bestmove by auto
  then show ?thesis
    by (intro wfTimers_frame [OF assms(1)])
       (simp_all add: handleBestMove_timers disarm_map_tpid split: option.splits)
next
  case False
  from handleLine_quiet_requests [OF assms(2) False] show ?thesis
    by (intro wfTimers_frame [OF assms(1)]) simp_all
qed

lemma handleLines_wfTimers:
  "wfTimers s \<Longrightarrow> handleLines s ls = Some s' \<Longrightarrow> wfTimers s'"
  by (induction ls arbitrary: s) (auto split: option.splits dest: handleLine_wfTimers)

lemma sendCommand_wfTimers [simp]:
  "wfTimers (sendCommand s c) = wfTimers s"
  by (simp add: wfTimers_def)

lemma step_wfTimers:
  assumes "wfTimers s" "step s e = Some s'"
  shows "wfTimers s'"
proof (cases e)
  case (Initialize p ex)
  then have "s' = initialize s p ex" using assms by simp
  then show ?thesis
    by (intro wfTimers_frame [OF assms(1)]) (simp_all add: initialize_def)
next
  case (Stdout d)
  then show ?thesis using assms handleLines_wfTimers
    by (auto simp add: handleStockfishOutput_def)
next
  case (Stderr d)
  then show ?thesis using assms by (auto simp add: onStderr_def wfTimers_def)
next
  case (Close code)
  then show ?thesis using assms by (auto simp add: onClose_def wfTimers_def)
next
  case (ProcError m)
  then show ?thesis using assms by (auto simp add: onError_def wfTimers_def)
next
  case (TimerFire j)
  then have "s' = fireTimer s j" using assms by simp
  then show ?thesis
    by (intro wfTimers_frame [OF assms(1)])
       (simp_all add: fireTimer_def timeoutCallback_def disarm_map_tpid)
next
  case (SendCommand c)
  then show ?thesis using assms by auto
next
  case (GetBestMove fen t)
  then have "s' = getBestMove s fen t" using assms by simp
  then show ?thesis using assms(1)
    by (auto simp add: getBestMove_def Let_def wfTimers_def list_all_iff)
next
  case (EvaluatePosition fen d)
  then have "s' = evaluatePosition s fen d" using assms by simp
  then show ?thesis using assms(1)
    by (auto simp add: evaluatePosition_def Let_def wfTimers_def list_all_iff)
next
  case (SetSkillLevel l)
  then show ?thesis using assms by (auto simp add: setSkillLevel_def Let_def split: if_splits)
next
  case Stop
  then show ?thesis using assms by (auto simp add: stop_def split: if_splits)
next
  case Quit
  then have "s' = quit s" using assms by simp
  then show ?thesis
    by (intro wfTimers_frame [OF assms(1)]) (simp_all add: quit_def)
qed

lemma run_wfTimers:
  "wfTimers s \<Longrightarrow> run s es = Some s' \<Longrightarrow> wfTimers s'"
  by (induction es arbitrary: s) (auto split: option.splits dest: step_wfTimers)

lemma reachable_wfTimers:
  "run constructor es = Some s \<Longrightarrow> wfTimers s"
  by (rule run_wfTimers [of constructor]) (simp_all add: wfTimers_def constructor_def)

text \<open>
  C4, as the code has it. A best-move request with time budget \<open>t\<close> made on a ready manager arms a timer
  with delay \<open>t + 1000\<close> for the new, pending request. Whatever happens next, as long as
  no best-move line arrives and the timer has not fired, the manager keeps running,
  the timer stays armed and the request pending. When the timer fires, the manager
  hands \<^verbatim>\<open>stop\<close> to \<^verbatim>\<open>sendCommand\<close> once and rejects the request with the timeout error; a
  manager that is still ready and holds its process writes exactly the one line \<^verbatim>\<open>stop\<close>
  to it (otherwise \<^verbatim>\<open>sendCommand\<close> queues or drops it). The timer is disarmed by firing,
  so this happens once.
\<close>

theorem bestmove_timeout:
  assumes "isReady s" and "wfTimers s"
    and "\<forall>e\<in>set es. \<not> bestmoveEvent e \<and> e \<noteq> TimerFire (length (timers s))"
  shows "timers (getBestMove s fen t) ! length (timers s)
           = \<lparr>delay = t + 1000, tpid = length (requests s), armed = True\<rparr>
     \<and> outcome (requests (getBestMove s fen t) ! length (requests s)) = Pending
     \<and> (\<exists>s2. run (getBestMove s fen t) es = Some s2
          \<and> timers s2 ! length (timers s)
                = \<lparr>delay = t + 1000, tpid = length (requests s), armed = True\<rparr>
          \<and> outcome (requests s2 ! length (requests s)) = Pending
          \<and> step s2 (TimerFire (length (timers s)))
                = Some (settle (length (requests s)) (Rejected Timeout)
                         (sendCommand
                            (s2\<lparr>timers := (timers s2)[length (timers s) :=
                                             (timers s2 ! length (timers s))\<lparr>armed := False\<rparr>]\<rparr>)
                            ''stop''))
          \<and> outcome (requests (fireTimer s2 (length (timers s))) ! length (requests s))
                = Rejected Timeout
          \<and> \<not> armed (timers (fireTimer s2 (length (timers s))) ! length (timers s))
          \<and> fireTimer (fireTimer s2 (length (timers s))) (length (timers s))
                = fireTimer s2 (length (timers s))
          \<and> (\<forall>p. isReady s2 \<and> stockfishProcess s2 = Some p \<longrightarrow>
                 stdin (fireTimer s2 (length (timers s))) = stdin s2 @ [(p, ''stop'' @ [nl])]
                 \<and> pendingCommands (fireTimer s2 (length (timers s))) = pendingCommands s2)
          \<and> (\<forall>p. \<not> isReady s2 \<and> stockfishProcess s2 = Some p \<longrightarrow>
                 stdin (fireTimer s2 (length (timers s))) = stdin s2
                 \<and> pendingCommands (fireTimer s2 (length (timers s))) = pendingCommands s2 @ [''stop''])
          \<and> (stockfishProcess s2 = None \<longrightarrow>
                 stdin (fireTimer s2 (length (timers s))) = stdin s2
                 \<and> pendingCommands (fireTimer s2 (length (timers s))) = pendingCommands s2))"
proof -
  let ?tid = "length (timers s)"
  let ?pid = "length (requests s)"
  obtain s2 where r: "run (getBestMove s fen t) es = Some s2" using run_total by blast
  have 1: "timerPending ?tid ?pid (t + 1000) (getBestMove s fen t)"
    using assms(1,2) by (rule getBestMove_arms)
  have 2: "timerPending ?tid ?pid (t + 1000) s2"
    using 1 r assms(3) by (rule run_timerPending)
  note f = fireTimer_pending [OF 2]
  have w: "stdin (fireTimer s2 ?tid) = stdin s2 @ [(p, ''stop'' @ [nl])]
            \<and> pendingCommands (fireTimer s2 ?tid) = pendingCommands s2"
    if "isReady s2 \<and> stockfishProcess s2 = Some p" for p
    unfolding f(1) using that by (simp add: sendCommand_def)
  have q: "stdin (fireTimer s2 ?tid) = stdin s2
            \<and> pendingCommands (fireTimer s2 ?tid) = pendingCommands s2 @ [''stop'']"
    if "\<not> isReady s2 \<and> stockfishProcess s2 = Some p" for p
    unfolding f(1) using that by (simp add: sendCommand_def)
  have d: "stdin (fireTimer s2 ?tid) = stdin s2
            \<and> pendingCommands (fireTimer s2 ?tid) = pendingCommands s2"
    if "stockfishProcess s2 = None"
    unfolding f(1) using that by (simp add: sendCommand_def)
  have K: "timers s2 ! ?tid = \<lparr>delay = t + 1000, tpid = ?pid, armed = True\<rparr>
          \<and> outcome (requests s2 ! ?pid) = Pending
          \<and> step s2 (TimerFire ?tid)
                = Some (settle ?pid (Rejected Timeout)
                         (sendCommand
                            (s2\<lparr>timers := (timers s2)[?tid := (timers s2 ! ?tid)\<lparr>armed := False\<rparr>]\<rparr>)
                            ''stop''))
          \<and> outcome (requests (fireTimer s2 ?tid) ! ?pid) = Rejected Timeout
          \<and> \<not> armed (timers (fireTimer s2 ?tid) ! ?tid)
          \<and> fireTimer (fireTimer s2 ?tid) ?tid = fireTimer s2 ?tid
          \<and> (\<forall>p. isReady s2 \<and> stockfishProcess s2 = Some p \<longrightarrow>
                 stdin (fireTimer s2 ?tid) = stdin s2 @ [(p, ''stop'' @ [nl])]
                 \<and> pendingCommands (fireTimer s2 ?tid) = pendingCommands s2)
          \<and> (\<forall>p. \<not> isReady s2 \<and> stockfishProcess s2 = Some p \<longrightarrow>
                 stdin (fireTimer s2 ?tid) = stdin s2
                 \<and> pendingCommands (fireTimer s2 ?tid) = pendingCommands s2 @ [''stop''])
          \<and> (stockfishProcess s2 = None \<longrightarrow>
                 stdin (fireTimer s2 ?tid) = stdin s2
                 \<and> pendingCommands (fireTimer s2 ?tid) = pendingCommands s2)"
    using 2 f w q d unfolding timerPending_def by simp
  have A1: "timers (getBestMove s fen t) ! ?tid = \<lparr>delay = t + 1000, tpid = ?pid, armed = True\<rparr>"
    and A2: "outcome (requests (getBestMove s fen t) ! ?pid) = Pending"
    using 1 by (simp_all add: timerPending_def)
  show ?thesis
    by (intro conjI exI [of _ s2]) (rule A1 A2 r K [THEN conjunct1]
        K [THEN conjunct2, THEN conjunct1]
        K [THEN conjunct2, THEN conjunct2, THEN conjunct1]
        K [THEN conjunct2, THEN conjunct2, THEN conjunct2, THEN conjunct1]
        K [THEN conjunct2, THEN conjunct2, THEN conjunct2, THEN conjunct2, THEN conjunct1]
        K [THEN conjunct2, THEN conjunct2, THEN conjunct2, THEN conjunct2, THEN conjunct2, THEN conjunct1]
        K [THEN conjunct2, THEN conjunct2, THEN conjunct2, THEN conjunct2, THEN conjunct2, THEN conjunct2,
           THEN conjunct1]
        K [THEN conjunct2, THEN conjunct2, THEN conjunct2, THEN conjunct2, THEN conjunct2, THEN conjunct2,
           THEN conjunct2, THEN conjunct1]
        K [THEN conjunct2, THEN conjunct2, THEN conjunct2, THEN conjunct2, THEN conjunct2, THEN conjunct2,
           THEN conjunct2, THEN conjunct2])+
qed

theorem bestmove_timeout_witness:
  "timers (getBestMove (constructor\<lparr>stockfishProcess := Some 0, isReady := True\<rparr>) ''startpos'' 1000) ! 0
     = \<lparr>delay = 2000, tpid = 0, armed = True\<rparr>
   \<and> (\<exists>s2. run (getBestMove (constructor\<lparr>stockfishProcess := Some 0, isReady := True\<rparr>) ''startpos'' 1000)
               [Stdout ''info depth 3 nodes 7'', SetSkillLevel 5] = Some s2
        \<and> outcome (requests s2 ! 0) = Pending
        \<and> outcome (requests (fireTimer s2 0) ! 0) = Rejected Timeout
        \<and> stdin (fireTimer s2 0)
           = [(0, ''position fen startpos'' @ [nl]), (0, ''go movetime 1000'' @ [nl]),
              (0, ''setoption name Skill Level value 5'' @ [nl]),
              (0, ''setoption name MultiPV value 1'' @ [nl]),
              (0, ''stop'' @ [nl])])"
proof -
  let ?s = "constructor\<lparr>stockfishProcess := Some 0, isReady := True\<rparr>"
  let ?s1 = "getBestMove ?s ''startpos'' 1000"
  let ?es = "[Stdout ''info depth 3 nodes 7'', SetSkillLevel 5]"
  have a: "isReady ?s" "wfTimers ?s" "length (timers ?s) = 0" "length (requests ?s) = 0"
    by (simp_all add: constructor_def wfTimers_def)
  have e: "\<forall>e\<in>set ?es. \<not> bestmoveEvent e \<and> e \<noteq> TimerFire (length (timers ?s))"
    by code_simp
  have v: "map_option (\<lambda>x. (isReady x, stockfishProcess x, stdin x)) (run ?s1 ?es)
      = Some (True, Some 0,
          [(0, ''position fen startpos'' @ [nl]), (0, ''go movetime 1000'' @ [nl]),
           (0, ''setoption name Skill Level value 5'' @ [nl]),
           (0, ''setoption name MultiPV value 1'' @ [nl])])"
    by code_simp
  note t = bestmove_timeout [OF a(1,2) e, unfolded a(3,4)]
  have A: "timers ?s1 ! 0 = \<lparr>delay = 2000, tpid = 0, armed = True\<rparr>"
    using t by simp
  obtain s2 where r: "run ?s1 ?es = Some s2"
    and p: "outcome (requests s2 ! 0) = Pending"
    and B: "outcome (requests (fireTimer s2 0) ! 0) = Rejected Timeout"
    and C: "\<forall>p. isReady s2 \<and> stockfishProcess s2 = Some p \<longrightarrow>
                 stdin (fireTimer s2 0) = stdin s2 @ [(p, ''stop'' @ [nl])]
                 \<and> pendingCommands (fireTimer s2 0) = pendingCommands s2"
    using t by blast
  have s2: "isReady s2" "stockfishProcess s2 = Some 0"
    "stdin s2 = [(0, ''position fen startpos'' @ [nl]), (0, ''go movetime 1000'' @ [nl]),
           (0, ''setoption name Skill Level value 5'' @ [nl]),
           (0, ''setoption name MultiPV value 1'' @ [nl])]"
    using v r by simp_all
  have "stdin (fireTimer s2 0) = stdin s2 @ [(0, ''stop'' @ [nl])]"
    using C s2(1,2) by blast
  then have D: "stdin (fireTimer s2 0)
           = [(0, ''position fen startpos'' @ [nl]), (0, ''go movetime 1000'' @ [nl]),
              (0, ''setoption name Skill Level value 5'' @ [nl]),
              (0, ''setoption name MultiPV value 1'' @ [nl]),
              (0, ''stop'' @ [nl])]"
    unfolding s2(3) by simp
  show ?thesis using A r p B D by blast
qed

text \<open>
  A best-move request on a ready manager, then the exit of the process, then the
  timer. The request is rejected with the timeout error, but \<^verbatim>\<open>stop\<close> is not written:
  the manager is no longer ready, so the command goes to the pending queue. The
  process has received the handshake and the two commands of the request only.
\<close>

theorem bestmove_timeout_counterexample:
  "map_option (\<lambda>s. (stdin s, pendingCommands s, map outcome (requests s), timers s))
     (run constructor [Initialize ''stockfish'' True, Stdout ''uciok'', Stdout ''readyok'',
        GetBestMove ''startpos'' 1000, Close (Some 1), TimerFire 0])
   = Some ([(0, ''uci'' @ [nl]), (0, ''isready'' @ [nl]), (0, ''position fen startpos'' @ [nl]),
            (0, ''go movetime 1000'' @ [nl])],
           [''stop''], [Rejected Timeout], [\<lparr>delay = 2000, tpid = 0, armed = False\<rparr>])"
  by code_simp

section \<open>Evaluation requests\<close>

lemma lastQualifying_Nil [simp]: "lastQualifying d [] = None"
  by (simp add: lastQualifying_def)



lemma evaluationHandler_heap [simp]:
  "heap (evaluationHandler a s l) = heap s"
  using evaluationHandler_shape [of a s l] by auto







lemma evalPending_sendCommand [simp]:
  "evalPending pid d base (sendCommand s c) = evalPending pid d base s"
  by (simp add: evalPending_def)










lemma moveHandler_finalEvaluation [simp]:
  "finalEvaluation (requests (moveHandler mv ev s l) ! pid) = finalEvaluation (requests s ! pid)"
  by (cases l) (simp_all add: Let_def)








lemma removeListener_subset:
  "set (removeListener l ls) \<subseteq> set ls"
  unfolding removeListener_def using set_remove1_subset [of l "rev ls"] by simp

lemma moveHandler_listeners:
  "set (evaluationListeners (moveHandler mv ev s l)) \<subseteq> set (evaluationListeners s)"
  by (cases l) (simp_all add: Let_def removeListener_subset)

lemma foldl_moveHandler_listeners:
  "set (evaluationListeners (foldl (moveHandler mv ev) s ls)) \<subseteq> set (evaluationListeners s)"
proof (induction ls arbitrary: s)
  case Nil
  then show ?case by simp
next
  case (Cons l ls)
  have "set (evaluationListeners (foldl (moveHandler mv ev) (moveHandler mv ev s l) ls))
      \<subseteq> set (evaluationListeners (moveHandler mv ev s l))"
    by (rule Cons.IH)
  then show ?case using moveHandler_listeners [of mv ev s l] by auto
qed

lemma handleBestMove_listeners:
  "bestmoveListeners (handleBestMove s line) = []"
  "set (evaluationListeners (handleBestMove s line)) \<subseteq> set (evaluationListeners s)"
proof -
  show "bestmoveListeners (handleBestMove s line) = []"
    using handleBestMove_shape [of s line] by auto
  define s1 where "s1 = (case moveTimeout s of
                  Some i \<Rightarrow> (clearTimeout s i)\<lparr>moveTimeout := None\<rparr>
                | None \<Rightarrow> s)"
  have e: "evaluationListeners s1 = evaluationListeners s"
    unfolding s1_def by (simp add: clearTimeout_def split: option.splits)
  have "set (evaluationListeners (handleBestMove s line))
      \<subseteq> set (evaluationListeners (s1\<lparr>emitted := emitted s1 @
      [BestmoveN (jsIndex (splitOn CHR '' '' line) 1) (currentEvaluation s1)], bestmoveListeners := []\<rparr>))"
    unfolding handleBestMove_def Let_def emitBestmove_def s1_def [symmetric]
    by (rule foldl_moveHandler_listeners)
  then show "set (evaluationListeners (handleBestMove s line)) \<subseteq> set (evaluationListeners s)"
    using e by simp
qed

lemma wfListeners_frame:
  assumes "wfListeners s" "set (bestmoveListeners s') \<subseteq> set (bestmoveListeners s)"
    "set (evaluationListeners s') \<subseteq> set (evaluationListeners s)"
    "length (requests s) \<le> length (requests s')"
  shows "wfListeners s'"
  using assms unfolding wfListeners_def list_all_iff by fastforce

lemma handleLine_wfListeners:
  assumes "wfListeners s" "handleLine s line = Some s'"
  shows "wfListeners s'"
proof (cases "startsWith line ''bestmove''")
  case True
  then have "s' = handleBestMove (s\<lparr>console := console s @ [LogStockfish line]\<rparr>) line"
    using assms(2) handleLine_bestmove by auto
  then show ?thesis
    using handleBestMove_listeners [of "s\<lparr>console := console s @ [LogStockfish line]\<rparr>" line]
    by (intro wfListeners_frame [OF assms(1)]) simp_all
next
  case False
  from handleLine_quiet_requests [OF assms(2) False] show ?thesis
    by (intro wfListeners_frame [OF assms(1)]) simp_all
qed

lemma handleLines_wfListeners:
  "wfListeners s \<Longrightarrow> handleLines s ls = Some s' \<Longrightarrow> wfListeners s'"
  by (induction ls arbitrary: s) (auto split: option.splits dest: handleLine_wfListeners)

lemma sendCommand_wfListeners [simp]:
  "wfListeners (sendCommand s c) = wfListeners s"
  by (simp add: wfListeners_def)

lemma step_wfListeners:
  assumes "wfListeners s" "step s e = Some s'"
  shows "wfListeners s'"
proof (cases e)
  case (Initialize p ex)
  then have "s' = initialize s p ex" using assms by simp
  then show ?thesis
    by (intro wfListeners_frame [OF assms(1)]) (simp_all add: initialize_def)
next
  case (Stdout d)
  then show ?thesis using assms handleLines_wfListeners
    by (auto simp add: handleStockfishOutput_def)
next
  case (Stderr d)
  then have "s' = onStderr s d" using assms by simp
  then show ?thesis
    by (intro wfListeners_frame [OF assms(1)]) (simp_all add: onStderr_def)
next
  case (Close code)
  then have "s' = onClose s code" using assms by simp
  then show ?thesis
    by (intro wfListeners_frame [OF assms(1)]) (simp_all add: onClose_def)
next
  case (ProcError m)
  then have "s' = onError s m" using assms by simp
  then show ?thesis
    by (intro wfListeners_frame [OF assms(1)]) (simp_all add: onError_def)
next
  case (TimerFire j)
  then have "s' = fireTimer s j" using assms by simp
  then show ?thesis
    by (intro wfListeners_frame [OF assms(1)]) (simp_all add: fireTimer_def timeoutCallback_def)
next
  case (SendCommand c)
  then show ?thesis using assms by auto
next
  case (GetBestMove fen t)
  then have "s' = getBestMove s fen t" using assms by simp
  then show ?thesis using assms(1)
    by (auto simp add: getBestMove_def Let_def wfListeners_def list_all_iff)
next
  case (EvaluatePosition fen d)
  then have "s' = evaluatePosition s fen d" using assms by simp
  then show ?thesis using assms(1)
    by (auto simp add: evaluatePosition_def Let_def wfListeners_def list_all_iff)
next
  case (SetSkillLevel l)
  then show ?thesis using assms by (auto simp add: setSkillLevel_def Let_def split: if_splits)
next
  case Stop
  then show ?thesis using assms by (auto simp add: stop_def split: if_splits)
next
  case Quit
  then have "s' = quit s" using assms by simp
  then show ?thesis
    by (intro wfListeners_frame [OF assms(1)]) (simp_all add: quit_def)
qed

lemma run_wfListeners:
  "wfListeners s \<Longrightarrow> run s es = Some s' \<Longrightarrow> wfListeners s'"
  by (induction es arbitrary: s) (auto split: option.splits dest: step_wfListeners)

lemma reachable_wfListeners:
  "run constructor es = Some s \<Longrightarrow> wfListeners s"
  by (rule run_wfListeners [of constructor]) (simp_all add: wfListeners_def constructor_def)




end
